theory Spec2Isabelle
  imports Main
begin

text \<open>
  A verification development for the interview scheduling back end: the slot extractor of
  extract_interview_schedule.py and the transcript recorder of the media relay in main.py.

  Conventions of the embedding.
  \<^item> Text is a HOL string whose characters are the code points 0 to 255 of a Python str.
    The character predicates below are Python's on that range.
  \<^item> The clock is an argument: every function that calls datetime.now() takes the
    reading as \<open>now\<close>.
  \<^item> dateutil.parser.parse is a third-party library. The extractor takes it as a parameter
    of type \<open>date_parser\<close>: given the clock reading and a text, it returns a datetime
    or the exception it raises. The section on the date parser of dateutil gives the
    parser of the library itself, on the texts that the extractor can pass to it.
  \<^item> The standard library is that of CPython on Linux, which matters for strftime: the
    year is printed without padding.
  \<^item> An exception is a value of \<open>py_error\<close>; a function that can raise returns a sum
    whose left summand is the exception.
\<close>

section \<open>Text\<close>

definition ord :: "char \<Rightarrow> nat" where
  "ord c = of_char c"

text \<open>str.isdigit, str.isspace and the ASCII letters of the class [A-Za-z].\<close>

definition is_digit :: "char \<Rightarrow> bool" where
  "is_digit c = (48 \<le> ord c \<and> ord c \<le> 57)"

definition is_space :: "char \<Rightarrow> bool" where
  "is_space c = ((9 \<le> ord c \<and> ord c \<le> 13) \<or> (28 \<le> ord c \<and> ord c \<le> 32) \<or> ord c = 133 \<or> ord c = 160)"

definition is_alpha :: "char \<Rightarrow> bool" where
  "is_alpha c = ((65 \<le> ord c \<and> ord c \<le> 90) \<or> (97 \<le> ord c \<and> ord c \<le> 122))"

text \<open>The word characters of the regular expression escape for a word boundary:
  alphanumeric code points and the underscore.\<close>

definition is_word :: "char \<Rightarrow> bool" where
  "is_word c = (is_digit c \<or> is_alpha c \<or> ord c = 95 \<or> ord c = 170 \<or> ord c = 178 \<or> ord c = 179 \<or>
     ord c = 181 \<or> ord c = 185 \<or> ord c = 186 \<or> ord c = 188 \<or> ord c = 189 \<or> ord c = 190 \<or>
     (192 \<le> ord c \<and> ord c \<noteq> 215 \<and> ord c \<noteq> 247))"

text \<open>str.lower on one code point. str.upper is only ever applied to a match of AM or PM,
  so \<open>upper_char\<close> covers the ASCII letters.\<close>

definition lower_char :: "char \<Rightarrow> char" where
  "lower_char c =
     (if (65 \<le> ord c \<and> ord c \<le> 90) \<or> (192 \<le> ord c \<and> ord c \<le> 222 \<and> ord c \<noteq> 215)
      then char_of (ord c + 32) else c)"

definition upper_char :: "char \<Rightarrow> char" where
  "upper_char c = (if 97 \<le> ord c \<and> ord c \<le> 122 then char_of (ord c - 32) else c)"

definition lower :: "string \<Rightarrow> string" where
  "lower s = map lower_char s"

definition strip :: "string \<Rightarrow> string" where
  "strip s = rev (dropWhile is_space (rev (dropWhile is_space s)))"

fun starts_with :: "string \<Rightarrow> string \<Rightarrow> bool" where
  "starts_with [] s = True"
| "starts_with (a # w) [] = False"
| "starts_with (a # w) (c # s) = (a = c \<and> starts_with w s)"

definition ends_with :: "string \<Rightarrow> string \<Rightarrow> bool" where
  "ends_with w s = starts_with (rev w) (rev s)"

text \<open>The substring test \<open>w in s\<close>.\<close>

fun contains :: "string \<Rightarrow> string \<Rightarrow> bool" where
  "contains w [] = (w = [])"
| "contains w (c # s) = (starts_with w (c # s) \<or> contains w s)"

text \<open>int() of a run of digits, and the decimal formatting of format specs such as 02d.\<close>

definition digit_val :: "char \<Rightarrow> nat" where
  "digit_val c = ord c - 48"

definition int_of_digits :: "string \<Rightarrow> nat" where
  "int_of_digits s = foldl (\<lambda>a c. 10 * a + digit_val c) 0 s"

definition digit_char :: "nat \<Rightarrow> char" where
  "digit_char n = char_of (48 + n)"

fun str_nat :: "nat \<Rightarrow> string" where
  "str_nat n = (if n < 10 then [digit_char n] else str_nat (n div 10) @ [digit_char (n mod 10)])"

declare str_nat.simps [simp del]

definition zero_pad :: "nat \<Rightarrow> nat \<Rightarrow> string" where
  "zero_pad w n = replicate (w - length (str_nat n)) (CHR ''0'') @ str_nat n"

section \<open>Regular expressions\<close>

text \<open>
  The fragment of Python's re that the extractor uses: literals, a character class under a
  counted quantifier (greedy or lazy), sequence, alternation, capture groups and the word
  boundary. The flags are two booleans, \<open>ic\<close> for IGNORECASE and \<open>da\<close> for DOTALL.

  Matching is by backtracking. \<open>ms r st\<close> lists every way \<open>r\<close> can match from the state
  \<open>st\<close>, in the order in which the backtracking matcher tries them, so the head of the list
  is the match that re reports. A state carries the character before the position, the
  text consumed so far (reversed), the text still ahead and the groups closed so far.
\<close>

datatype cclass = CDigit | CSpace | CAlpha | CAny | COneOf string

fun in_class :: "bool \<Rightarrow> cclass \<Rightarrow> char \<Rightarrow> bool" where
  "in_class da CDigit c = is_digit c"
| "in_class da CSpace c = is_space c"
| "in_class da CAlpha c = is_alpha c"
| "in_class da CAny c = (da \<or> c \<noteq> CHR 0x0A)"
| "in_class da (COneOf cs) c = (c \<in> set cs)"

datatype regex =
    Eps
  | Lit string
  | Rep cclass nat "nat option" bool
  | Seq regex regex
  | Alt regex regex
  | Grp nat regex
  | WordB

record mstate =
  st_prev :: "char option"
  st_acc :: string
  st_rest :: string
  st_groups :: "(nat \<times> string) list"

definition advance :: "char \<Rightarrow> string \<Rightarrow> mstate \<Rightarrow> mstate" where
  "advance c s st = st\<lparr>st_prev := Some c, st_acc := c # st_acc st, st_rest := s\<rparr>"

text \<open>A character of a literal against a character of the text, with or without
  IGNORECASE.\<close>

definition char_eq :: "bool \<Rightarrow> char \<Rightarrow> char \<Rightarrow> bool" where
  "char_eq ic a c = (if ic then lower_char a = lower_char c else a = c)"

fun lit_match :: "bool \<Rightarrow> string \<Rightarrow> mstate \<Rightarrow> string \<Rightarrow> mstate option" where
  "lit_match ic [] st s = Some st"
| "lit_match ic (a # w) st [] = None"
| "lit_match ic (a # w) st (c # s) =
     (if char_eq ic a c then lit_match ic w (advance c s st) s else None)"

text \<open>\<open>rep_upto P hi st s\<close>: the states after 0, 1, 2, ... leading characters of \<open>s\<close> that
  satisfy \<open>P\<close>, at most \<open>hi\<close> of them.\<close>

fun rep_upto :: "(char \<Rightarrow> bool) \<Rightarrow> nat option \<Rightarrow> mstate \<Rightarrow> string \<Rightarrow> mstate list" where
  "rep_upto P hi st [] = [st]"
| "rep_upto P hi st (c # s) =
     st # (if hi \<noteq> Some 0 \<and> P c then rep_upto P (map_option (\<lambda>h. h - 1) hi) (advance c s st) s else [])"

definition at_boundary :: "char option \<Rightarrow> string \<Rightarrow> bool" where
  "at_boundary p s =
     ((case p of None \<Rightarrow> False | Some c \<Rightarrow> is_word c) \<noteq> (case s of [] \<Rightarrow> False | c # _ \<Rightarrow> is_word c))"

definition close_group :: "nat \<Rightarrow> string \<Rightarrow> mstate \<Rightarrow> mstate" where
  "close_group n acc st = st\<lparr>st_acc := st_acc st @ acc, st_groups := (n, rev (st_acc st)) # st_groups st\<rparr>"

fun ms :: "bool \<Rightarrow> bool \<Rightarrow> regex \<Rightarrow> mstate \<Rightarrow> mstate list" where
  "ms ic da Eps st = [st]"
| "ms ic da (Lit w) st = (case lit_match ic w st (st_rest st) of None \<Rightarrow> [] | Some st' \<Rightarrow> [st'])"
| "ms ic da (Rep c lo hi greedy) st =
     (if greedy then rev else id) (drop lo (rep_upto (in_class da c) hi st (st_rest st)))"
| "ms ic da (Seq a b) st = concat (map (ms ic da b) (ms ic da a st))"
| "ms ic da (Alt a b) st = ms ic da a st @ ms ic da b st"
| "ms ic da (Grp n r) st = map (close_group n (st_acc st)) (ms ic da r (st\<lparr>st_acc := []\<rparr>))"
| "ms ic da WordB st = (if at_boundary (st_prev st) (st_rest st) then [st] else [])"

text \<open>A match object: group 0, the numbered groups, and where the text goes on.\<close>

record rmatch =
  m_group0 :: string
  m_groups :: "(nat \<times> string) list"
  m_prev :: "char option"
  m_rest :: string

definition match_at :: "bool \<Rightarrow> bool \<Rightarrow> regex \<Rightarrow> char option \<Rightarrow> string \<Rightarrow> rmatch option" where
  "match_at ic da r p s =
     (case ms ic da r \<lparr>st_prev = p, st_acc = [], st_rest = s, st_groups = []\<rparr> of
        [] \<Rightarrow> None
      | st # _ \<Rightarrow>
          Some \<lparr>m_group0 = rev (st_acc st), m_groups = st_groups st, m_prev = st_prev st, m_rest = st_rest st\<rparr>)"

text \<open>re.search: the match at the leftmost position that has one.\<close>

fun re_search_from :: "bool \<Rightarrow> bool \<Rightarrow> regex \<Rightarrow> char option \<Rightarrow> string \<Rightarrow> rmatch option" where
  "re_search_from ic da r p [] = match_at ic da r p []"
| "re_search_from ic da r p (c # s) =
     (case match_at ic da r p (c # s) of
        Some m \<Rightarrow> Some m
      | None \<Rightarrow> re_search_from ic da r (Some c) s)"

definition re_search :: "bool \<Rightarrow> bool \<Rightarrow> regex \<Rightarrow> string \<Rightarrow> rmatch option" where
  "re_search ic da r s = re_search_from ic da r None s"

text \<open>re.finditer: the successive non-overlapping matches, each search starting where the
  previous match ended. None of the patterns below matches the empty string; the scan
  stops after an empty match.\<close>

function re_finditer_from :: "bool \<Rightarrow> bool \<Rightarrow> regex \<Rightarrow> char option \<Rightarrow> string \<Rightarrow> rmatch list" where
  "re_finditer_from ic da r p s =
     (case re_search_from ic da r p s of
        None \<Rightarrow> []
      | Some m \<Rightarrow>
          if length (m_rest m) < length s
          then m # re_finditer_from ic da r (m_prev m) (m_rest m)
          else [m])"
  by pat_completeness auto
termination
  by (relation "measure (\<lambda>(ic, da, r, p, s). length s)") auto

declare re_finditer_from.simps [simp del]

definition re_finditer :: "bool \<Rightarrow> bool \<Rightarrow> regex \<Rightarrow> string \<Rightarrow> rmatch list" where
  "re_finditer ic da r s = re_finditer_from ic da r None s"

text \<open>match.group(n). Every group of the patterns below is mandatory, so the group of a
  match is always present; the empty string stands for an absent one.\<close>

definition group_text :: "(nat \<times> string) list \<Rightarrow> nat \<Rightarrow> string" where
  "group_text g n = (case map_of g n of None \<Rightarrow> [] | Some t \<Rightarrow> t)"

definition grp :: "rmatch \<Rightarrow> nat \<Rightarrow> string" where
  "grp m n = group_text (m_groups m) n"

text \<open>re.findall for a pattern with one group: the group of every match.\<close>

definition re_findall :: "bool \<Rightarrow> bool \<Rightarrow> regex \<Rightarrow> string \<Rightarrow> string list" where
  "re_findall ic da r s = map (\<lambda>m. grp m 1) (re_finditer ic da r s)"

definition seqs :: "regex list \<Rightarrow> regex" where
  "seqs rs = foldr Seq rs Eps"

fun alts :: "regex list \<Rightarrow> regex" where
  "alts [] = Eps"
| "alts [r] = r"
| "alts (r # rs) = Alt r (alts rs)"

definition opt :: "regex \<Rightarrow> regex" where
  "opt r = Alt r Eps"

definition star :: "cclass \<Rightarrow> regex" where
  "star c = Rep c 0 None True"

definition plus1 :: "cclass \<Rightarrow> regex" where
  "plus1 c = Rep c 1 None True"

definition lazy_star :: "cclass \<Rightarrow> regex" where
  "lazy_star c = Rep c 0 None False"

definition times :: "cclass \<Rightarrow> nat \<Rightarrow> nat \<Rightarrow> regex" where
  "times c lo hi = Rep c lo (Some hi) True"

section \<open>The patterns of extract_interview_slot\<close>

text \<open>Line 22: confirm, interview, on, a date of the shape dd-dd-dddd in group 1, at, a
  time d[d]:dd AM or PM in group 2.\<close>

definition standardized_pattern :: regex where
  "standardized_pattern = seqs
     [Lit ''confirm'', lazy_star CAny, Lit ''interview'', lazy_star CAny, Lit ''on'', star CSpace,
      Grp 1 (seqs [times CDigit 2 2, Lit ''-'', times CDigit 2 2, Lit ''-'', times CDigit 4 4]),
      star CSpace, Lit ''at'', star CSpace,
      Grp 2 (seqs [times CDigit 1 2, Lit '':'', times CDigit 2 2, star CSpace,
                   alts [Lit ''AM'', Lit ''PM'']])]"

text \<open>Lines 25 to 30: a keyword, then for or on, then a phrase Month Day, Year in group 1.\<close>

definition date_phrase :: regex where
  "date_phrase = seqs
     [plus1 CAlpha, plus1 CSpace, times CDigit 1 2,
      opt (alts [Lit ''st'', Lit ''nd'', Lit ''rd'', Lit ''th'']),
      times (COneOf '','') 0 1, star CSpace, times CDigit 4 4]"

definition legacy_patterns :: "regex list" where
  "legacy_patterns =
     [seqs [Lit ''scheduled'', lazy_star CAny, alts [Lit ''for'', Lit ''on''], star CSpace, Grp 1 date_phrase],
      seqs [Lit ''schedule'', lazy_star CAny, alts [Lit ''on'', Lit ''for''], star CSpace, Grp 1 date_phrase],
      seqs [Lit ''meeting'', lazy_star CAny, alts [Lit ''on'', Lit ''for''], star CSpace, Grp 1 date_phrase],
      seqs [Lit ''interview'', lazy_star CAny, alts [Lit ''on'', Lit ''for''], star CSpace, Grp 1 date_phrase]]"

text \<open>Lines 60 and 72: one or two digits, an optional colon or dot, up to two more digits,
  then AM or PM.\<close>

definition time_pattern :: regex where
  "time_pattern = Grp 1 (seqs
     [times CDigit 1 2, times (COneOf '':.'') 0 1, times CDigit 0 2, star CSpace,
      alts [Lit ''AM'', Lit ''PM'', Lit ''am'', Lit ''pm'']])"

text \<open>Lines 67 to 71: the three date grammars of the unanchored stage.\<close>

definition date_patterns :: "regex list" where
  "date_patterns =
     [Grp 1 date_phrase,
      Grp 1 (seqs
        [times CDigit 1 2, opt (alts [Lit ''st'', Lit ''nd'', Lit ''rd'', Lit ''th'']), plus1 CSpace,
         opt (seqs [Lit ''of'', plus1 CSpace]), plus1 CAlpha, plus1 CSpace,
         opt (seqs [Lit ''of'', plus1 CSpace]), times CDigit 4 4]),
      Grp 1 (seqs
        [plus1 CAlpha, plus1 CSpace, times CDigit 1 2,
         opt (alts [Lit ''st'', Lit ''nd'', Lit ''rd'', Lit ''th''])])]"

text \<open>Lines 115, 140, 156, 161 and 165.\<close>

definition year_pattern :: regex where
  "year_pattern = seqs [WordB, Grp 1 (times CDigit 4 4), WordB]"

definition std_time_pattern :: regex where
  "std_time_pattern = seqs
     [Grp 1 (times CDigit 1 2), Lit '':'', Grp 2 (times CDigit 2 2), star CSpace,
      Grp 3 (alts [Lit ''AM'', Lit ''PM''])]"

definition hm_pattern :: regex where
  "hm_pattern = seqs [Grp 1 (times CDigit 1 2), times (COneOf '':.'') 1 1, Grp 2 (times CDigit 2 2)]"

definition hour_pattern :: regex where
  "hour_pattern = Grp 1 (times CDigit 1 2)"

section \<open>Dates\<close>

datatype py_error = ValueError | OverflowError | TypeError | ParserError | AssertionError | FileNotFoundError | OSError

record datetime =
  dt_year :: nat
  dt_month :: nat
  dt_day :: nat
  dt_hour :: nat
  dt_minute :: nat
  dt_second :: nat
  dt_microsecond :: nat
  dt_aware :: bool

definition is_leap :: "nat \<Rightarrow> bool" where
  "is_leap y = (y mod 4 = 0 \<and> (y mod 100 \<noteq> 0 \<or> y mod 400 = 0))"

definition days_in_month :: "nat \<Rightarrow> nat \<Rightarrow> nat" where
  "days_in_month y m =
     (if m = 2 then (if is_leap y then 29 else 28)
      else if m = 4 \<or> m = 6 \<or> m = 9 \<or> m = 11 then 30 else 31)"

definition valid_date :: "nat \<Rightarrow> nat \<Rightarrow> nat \<Rightarrow> bool" where
  "valid_date y m d = (1 \<le> y \<and> y \<le> 9999 \<and> 1 \<le> m \<and> m \<le> 12 \<and> 1 \<le> d \<and> d \<le> days_in_month y m)"

definition mk_date :: "nat \<Rightarrow> nat \<Rightarrow> nat \<Rightarrow> datetime" where
  "mk_date y m d = \<lparr>dt_year = y, dt_month = m, dt_day = d, dt_hour = 0, dt_minute = 0,
     dt_second = 0, dt_microsecond = 0, dt_aware = False\<rparr>"

text \<open>
  datetime.strptime with the month-day-year format of line 112. The standard library turns the format into
  a regular expression (month 1[0-2], 0[1-9] or [1-9]; day 3[01], [12] and a digit, 0[1-9],
  [1-9] or a space and [1-9]; year four digits), matches it at the start of the text, and
  raises ValueError when the text does not match, when text remains, or when the fields
  are not a date of the calendar.
\<close>

definition month_field :: regex where
  "month_field = alts
     [seqs [Lit ''1'', times (COneOf ''012'') 1 1],
      seqs [Lit ''0'', times (COneOf ''123456789'') 1 1],
      times (COneOf ''123456789'') 1 1]"

definition day_field :: regex where
  "day_field = alts
     [seqs [Lit ''3'', times (COneOf ''01'') 1 1],
      seqs [times (COneOf ''12'') 1 1, times CDigit 1 1],
      seqs [Lit ''0'', times (COneOf ''123456789'') 1 1],
      times (COneOf ''123456789'') 1 1,
      seqs [Lit '' '', times (COneOf ''123456789'') 1 1]]"

definition strptime_pattern :: regex where
  "strptime_pattern = seqs
     [Grp 1 month_field, Lit ''-'', Grp 2 day_field, Lit ''-'', Grp 3 (times CDigit 4 4)]"

definition strptime_mdy :: "string \<Rightarrow> py_error + datetime" where
  "strptime_mdy s =
     (case match_at True False strptime_pattern None s of
        None \<Rightarrow> Inl ValueError
      | Some m \<Rightarrow>
          if m_rest m \<noteq> [] then Inl ValueError
          else let y = int_of_digits (grp m 3);
                   mo = int_of_digits (grp m 1);
                   d = int_of_digits (strip (grp m 2))
               in if valid_date y mo d then Inr (mk_date y mo d) else Inl ValueError)"

text \<open>strftime with the day-month-year format of line 129, as CPython gives it with the C
  library of Linux: the day and the month in two digits, and the year in decimal with no
  padding, so that a year below 1000 has fewer than four digits.\<close>

definition strftime_dmy :: "datetime \<Rightarrow> string" where
  "strftime_dmy dt = zero_pad 2 (dt_day dt) @ ''-'' @ zero_pad 2 (dt_month dt) @ ''-'' @ str_nat (dt_year dt)"

text \<open>Adding timedelta(days=1), replace(year=...) and the comparison of two datetimes, each
  with the exception it raises.\<close>

definition add_one_day :: "datetime \<Rightarrow> py_error + datetime" where
  "add_one_day dt =
     (if dt_day dt < days_in_month (dt_year dt) (dt_month dt) then Inr (dt\<lparr>dt_day := dt_day dt + 1\<rparr>)
      else if dt_month dt < 12 then Inr (dt\<lparr>dt_month := dt_month dt + 1, dt_day := 1\<rparr>)
      else if dt_year dt < 9999 then Inr (dt\<lparr>dt_year := dt_year dt + 1, dt_month := 1, dt_day := 1\<rparr>)
      else Inl OverflowError)"

definition replace_year :: "datetime \<Rightarrow> nat \<Rightarrow> py_error + datetime" where
  "replace_year dt y =
     (if valid_date y (dt_month dt) (dt_day dt) then Inr (dt\<lparr>dt_year := y\<rparr>) else Inl ValueError)"

definition dt_key :: "datetime \<Rightarrow> nat list" where
  "dt_key dt = [dt_year dt, dt_month dt, dt_day dt, dt_hour dt, dt_minute dt, dt_second dt, dt_microsecond dt]"

fun lex_less :: "nat list \<Rightarrow> nat list \<Rightarrow> bool" where
  "lex_less (a # as) (b # bs) = (a < b \<or> (a = b \<and> lex_less as bs))"
| "lex_less [] (b # bs) = True"
| "lex_less as [] = False"

definition dt_less :: "datetime \<Rightarrow> datetime \<Rightarrow> py_error + bool" where
  "dt_less a b = (if dt_aware a \<noteq> dt_aware b then Inl TypeError else Inr (lex_less (dt_key a) (dt_key b)))"

section \<open>extract_interview_slot\<close>

datatype format_type = Standardized | Legacy

text \<open>The dictionary confirmed_slot; the unanchored stage leaves the key format_type out.\<close>

record slot =
  date_text :: string
  time_text :: string
  full_match :: string
  format_type :: "format_type option"

text \<open>The dictionary result.\<close>

record schedule_result =
  formatted_date :: string
  formatted_time :: string
  raw_date_text :: string
  raw_time_text :: string
  full_text :: string

type_synonym date_parser = "datetime \<Rightarrow> string \<Rightarrow> py_error + datetime"

text \<open>Lines 34 to 42: the standardized stage.\<close>

definition standardized_slot :: "string \<Rightarrow> slot option" where
  "standardized_slot content =
     (case re_search True False standardized_pattern content of
        None \<Rightarrow> None
      | Some m \<Rightarrow> Some \<lparr>date_text = strip (grp m 1), time_text = strip (grp m 2),
                         full_match = m_group0 m, format_type = Some Standardized\<rparr>)"

text \<open>Lines 45 to 56: the loop over the legacy patterns leaves at the first match of the
  first pattern that has one.\<close>

fun legacy_date :: "regex list \<Rightarrow> string \<Rightarrow> slot option" where
  "legacy_date [] content = None"
| "legacy_date (pattern # patterns) content =
     (case re_finditer True True pattern content of
        m # _ \<Rightarrow> Some \<lparr>date_text = strip (grp m 1), time_text = [],
                         full_match = m_group0 m, format_type = Some Legacy\<rparr>
      | [] \<Rightarrow> legacy_date patterns content)"

text \<open>Lines 59 to 62: the time of a legacy slot is the last time-like text of the
  transcript.\<close>

definition legacy_slot :: "string \<Rightarrow> slot option" where
  "legacy_slot content =
     (case legacy_date legacy_patterns content of
        None \<Rightarrow> None
      | Some cs \<Rightarrow>
          (let time_matches = re_findall True False time_pattern content
           in if time_matches \<noteq> [] then Some (cs\<lparr>time_text := last time_matches\<rparr>) else Some cs))"

text \<open>Lines 65 to 86: the unanchored stage.\<close>

definition unanchored_slot :: "string \<Rightarrow> slot option" where
  "unanchored_slot content =
     (let dates = concat (map (\<lambda>pattern. re_findall True False pattern content) date_patterns);
          times = re_findall True False time_pattern content
      in if dates \<noteq> [] \<and> times \<noteq> []
         then Some \<lparr>date_text = last dates, time_text = last times,
                     full_match = last dates @ '' at '' @ last times, format_type = None\<rparr>
         else None)"

definition find_slot :: "string \<Rightarrow> slot option" where
  "find_slot content =
     (case standardized_slot content of
        Some cs \<Rightarrow> Some cs
      | None \<Rightarrow>
          (case legacy_slot content of
             Some cs \<Rightarrow> Some cs
           | None \<Rightarrow> unanchored_slot content))"

text \<open>Lines 103 to 132: the date. The value is the text of formatted_date, or the exception
  that the handler of line 131 catches.\<close>

definition then_format :: "py_error + datetime \<Rightarrow> py_error + string" where
  "then_format r = (case r of Inl e \<Rightarrow> Inl e | Inr parsed_date \<Rightarrow> Inr (strftime_dmy parsed_date))"

definition infer_year :: "datetime \<Rightarrow> datetime \<Rightarrow> py_error + datetime" where
  "infer_year current_date parsed_date =
     (if dt_year parsed_date = 1900 then
        (case replace_year parsed_date (dt_year current_date) of
           Inl e \<Rightarrow> Inl e
         | Inr d \<Rightarrow>
             (case dt_less d current_date of
                Inl e \<Rightarrow> Inl e
              | Inr True \<Rightarrow> replace_year d (dt_year current_date + 1)
              | Inr False \<Rightarrow> Inr d))
      else Inr parsed_date)"

definition parse_date :: "date_parser \<Rightarrow> datetime \<Rightarrow> slot \<Rightarrow> py_error + string" where
  "parse_date parse now cs =
     (if contains ''tomorrow'' (lower (date_text cs)) then then_format (add_one_day now)
      else if contains ''today'' (lower (date_text cs)) then Inr (strftime_dmy now)
      else if format_type cs = Some Standardized then then_format (strptime_mdy (date_text cs))
      else
        (case re_search False False year_pattern (date_text cs) of
           Some year_match \<Rightarrow> then_format (parse now (date_text cs))
         | None \<Rightarrow>
             (case parse now (date_text cs) of
                Inl e \<Rightarrow> Inl e
              | Inr parsed_date \<Rightarrow> then_format (infer_year now parsed_date))))"

text \<open>Lines 135 to 178: the time. Nothing in this block raises; the text stays empty only
  when the pattern of line 140 does not match.\<close>

definition to_24h :: "bool \<Rightarrow> bool \<Rightarrow> nat \<Rightarrow> nat" where
  "to_24h pm am hours =
     (if pm \<and> hours \<noteq> 12 then hours + 12
      else if am \<and> hours = 12 then 0
      else hours)"

definition hh_mm :: "nat \<Rightarrow> nat \<Rightarrow> string" where
  "hh_mm hours minutes = zero_pad 2 hours @ '':'' @ zero_pad 2 minutes"

definition hour_only :: "string \<Rightarrow> nat \<times> nat" where
  "hour_only time_str =
     (case re_search False False hour_pattern time_str of
        Some hour_match \<Rightarrow> (int_of_digits (grp hour_match 1), 0)
      | None \<Rightarrow> (0, 0))"

definition legacy_hours_minutes :: "string \<Rightarrow> nat \<times> nat" where
  "legacy_hours_minutes time_str =
     (if CHR '':'' \<in> set time_str \<or> CHR ''.'' \<in> set time_str then
        (case re_search False False hm_pattern time_str of
           Some time_parts \<Rightarrow> (int_of_digits (grp time_parts 1), int_of_digits (grp time_parts 2))
         | None \<Rightarrow> hour_only time_str)
      else hour_only time_str)"

definition parse_time :: "slot \<Rightarrow> string" where
  "parse_time cs =
     (if format_type cs = Some Standardized then
        (case re_search True False std_time_pattern (time_text cs) of
           Some time_match \<Rightarrow>
             (let hours = int_of_digits (grp time_match 1);
                  minutes = int_of_digits (grp time_match 2);
                  am_pm = map upper_char (grp time_match 3)
              in hh_mm (to_24h (am_pm = ''PM'') (am_pm = ''AM'') hours) minutes)
         | None \<Rightarrow> [])
      else
        (case legacy_hours_minutes (time_text cs) of
           (hours, minutes) \<Rightarrow>
             hh_mm (to_24h (contains ''pm'' (lower (time_text cs)))
                           (contains ''am'' (lower (time_text cs))) hours) minutes))"

text \<open>Lines 89 to 100 and 205: the result.\<close>

definition empty_result :: schedule_result where
  "empty_result = \<lparr>formatted_date = [], formatted_time = [], raw_date_text = [],
     raw_time_text = [], full_text = []\<rparr>"

definition slot_result :: "date_parser \<Rightarrow> datetime \<Rightarrow> slot \<Rightarrow> schedule_result" where
  "slot_result parse now cs =
     \<lparr>formatted_date = (case parse_date parse now cs of Inl e \<Rightarrow> [] | Inr d \<Rightarrow> d),
      formatted_time = parse_time cs,
      raw_date_text = date_text cs,
      raw_time_text = time_text cs,
      full_text = full_match cs\<rparr>"

definition extract_content :: "date_parser \<Rightarrow> datetime \<Rightarrow> string \<Rightarrow> schedule_result" where
  "extract_content parse now content =
     (case find_slot content of
        None \<Rightarrow> empty_result
      | Some cs \<Rightarrow> slot_result parse now cs)"

text \<open>Lines 16 to 19 and 207 to 212: reading the file. Any exception of the read, the missing
  file among them, makes the function return None.\<close>

definition extract_interview_slot ::
    "(string \<Rightarrow> py_error + string) \<Rightarrow> date_parser \<Rightarrow> datetime \<Rightarrow> string \<Rightarrow> schedule_result option" where
  "extract_interview_slot read_file parse now transcript_file_path =
     (case read_file transcript_file_path of
        Inl e \<Rightarrow> None
      | Inr content \<Rightarrow> Some (extract_content parse now content))"

section \<open>process_all_transcripts\<close>

record filesystem =
  fs_exists :: "string \<Rightarrow> bool"
  fs_listdir :: "string \<Rightarrow> string list"
  fs_read :: "string \<Rightarrow> py_error + string"

text \<open>Lines 230 to 235: a result is kept when it is not None.\<close>

definition collect_results ::
    "filesystem \<Rightarrow> date_parser \<Rightarrow> datetime \<Rightarrow> string list \<Rightarrow> schedule_result list" where
  "collect_results fs parse now transcript_files =
     concat (map
       (\<lambda>filename.
          case extract_interview_slot (fs_read fs) parse now (''call-transcripts/'' @ filename) of
            None \<Rightarrow> []
          | Some result \<Rightarrow> [result])
       transcript_files)"

definition process_all_transcripts ::
    "filesystem \<Rightarrow> date_parser \<Rightarrow> datetime \<Rightarrow> schedule_result list option" where
  "process_all_transcripts fs parse now =
     (if \<not> fs_exists fs ''call-transcripts'' then None
      else
        (let transcript_files = filter (ends_with ''.txt'') (fs_listdir fs ''call-transcripts'')
         in if transcript_files = [] then None
            else Some (collect_results fs parse now transcript_files)))"

section \<open>The date parser of dateutil\<close>

text \<open>
  An instance of the parameter \<open>date_parser\<close>: parser.parse of dateutil 2.9 with fuzzy=True,
  as line 118 and line 120 call it, on the texts that the date patterns of lines 25 to 28
  and 69 to 71 can capture, which are made of ASCII letters, digits, white space and
  commas. The functions follow those of the library by name: the lexer, the
  vocabulary of parserinfo, the list of year, month and day values with the positions
  that a month name or a number above 100 fixes, the numeric token, the main loop, the
  resolution of the list, the validation and the construction of the datetime from the
  default, which is today at 00:00.

  \<^item> The year that parserinfo reads from the clock when the module is loaded is taken to
    be the year of the default.
  \<^item> A character outside the four classes is a token of its own that the fuzzy mode
    skips; the library gives a meaning of its own to the full stop, the colon, the dash,
    the slash and the plus sign, which the captured texts never hold.
  \<^item> A number is held exactly; the library computes with 28 significant digits.
  \<^item> The result is aware when the text names the zone UTC, GMT or Z after an hour; the
    names of the local zone of the machine are taken to be UTC.
\<close>

definition month_names :: "(string \<times> nat) list" where
  "month_names =
     [(''jan'', 1), (''january'', 1), (''feb'', 2), (''february'', 2), (''mar'', 3), (''march'', 3),
      (''apr'', 4), (''april'', 4), (''may'', 5), (''jun'', 6), (''june'', 6), (''jul'', 7),
      (''july'', 7), (''aug'', 8), (''august'', 8), (''sep'', 9), (''sept'', 9), (''september'', 9),
      (''oct'', 10), (''october'', 10), (''nov'', 11), (''november'', 11), (''dec'', 12),
      (''december'', 12)]"

definition weekday_names :: "(string \<times> nat) list" where
  "weekday_names =
     [(''mon'', 0), (''monday'', 0), (''tue'', 1), (''tuesday'', 1), (''wed'', 2), (''wednesday'', 2),
      (''thu'', 3), (''thursday'', 3), (''fri'', 4), (''friday'', 4), (''sat'', 5), (''saturday'', 5),
      (''sun'', 6), (''sunday'', 6)]"

definition hms_names :: "(string \<times> nat) list" where
  "hms_names =
     [(''h'', 0), (''hour'', 0), (''hours'', 0), (''m'', 1), (''minute'', 1), (''minutes'', 1),
      (''s'', 2), (''second'', 2), (''seconds'', 2)]"

definition ampm_names :: "(string \<times> nat) list" where
  "ampm_names = [(''am'', 0), (''a'', 0), (''pm'', 1), (''p'', 1)]"

definition jump_words :: "string list" where
  "jump_words =
     ['' '', ''.'', '','', '';'', ''-'', ''/'', [CHR 0x27], ''at'', ''on'', ''and'', ''ad'', ''m'', ''t'',
      ''of'', ''st'', ''nd'', ''rd'', ''th'']"

definition jump :: "string \<Rightarrow> bool" where
  "jump name = (lower name \<in> set jump_words)"

definition weekday :: "string \<Rightarrow> nat option" where
  "weekday name = map_of weekday_names (lower name)"

definition month :: "string \<Rightarrow> nat option" where
  "month name = map_of month_names (lower name)"

definition hms :: "string \<Rightarrow> nat option" where
  "hms name = map_of hms_names (lower name)"

definition ampm :: "string \<Rightarrow> nat option" where
  "ampm name = map_of ampm_names (lower name)"

definition pertain :: "string \<Rightarrow> bool" where
  "pertain name = (lower name = ''of'')"

text \<open>
  The lexer. A token is a run of letters, a run of digits, one blank for each white space
  character, or a single other character. A comma after two or more digits is kept in
  the number when digits follow, and then stands for the decimal point.
\<close>

function timelex :: "string \<Rightarrow> string list" where
  "timelex [] = []"
| "timelex (c # cs) =
     (if is_alpha c then (c # takeWhile is_alpha cs) # timelex (dropWhile is_alpha cs)
      else if is_digit c then
        (let token = c # takeWhile is_digit cs;
             rest = dropWhile is_digit cs
         in if 2 \<le> length token \<and> take 1 rest = '',''
            then (if takeWhile is_digit (drop 1 rest) = [] then token # '','' # timelex (drop 1 rest)
                  else (token @ ''.'' @ takeWhile is_digit (drop 1 rest))
                         # timelex (dropWhile is_digit (drop 1 rest)))
            else token # timelex rest)
      else if is_space c then '' '' # timelex cs
      else [c] # timelex cs)"
  by pat_completeness auto

termination
  apply (relation "measure length")
  apply (auto simp add: less_Suc_eq_le length_dropWhile_le)
  subgoal for c cs
    using length_dropWhile_le [of is_digit cs] by arith
  subgoal for c cs
    using length_dropWhile_le [of is_digit cs]
          length_dropWhile_le [of is_digit "drop (Suc 0) (dropWhile is_digit cs)"]
    by simp
  done

declare timelex.simps [simp del]

text \<open>
  The tokens that float accepts are the numbers and the words nan, inf and infinity;
  the conversion to a decimal then refuses the three words with a ValueError. The
  parts of a number are its digits before the decimal point and those after it; int of
  a piece of a token raises ValueError unless the piece is made of digits.
\<close>

definition is_number :: "string \<Rightarrow> bool" where
  "is_number token = (token \<noteq> [] \<and> is_digit (hd token))"

definition not_finite :: "string \<Rightarrow> bool" where
  "not_finite token = (lower token \<in> set [''nan'', ''inf'', ''infinity''])"

definition int_part :: "string \<Rightarrow> nat" where
  "int_part token = int_of_digits (takeWhile is_digit token)"

definition frac_digits :: "string \<Rightarrow> string" where
  "frac_digits token = drop 1 (dropWhile is_digit token)"

definition has_fraction :: "string \<Rightarrow> bool" where
  "has_fraction token = (int_of_digits (frac_digits token) \<noteq> 0)"

definition to_int :: "string \<Rightarrow> nat option" where
  "to_int s = (if s \<noteq> [] \<and> list_all is_digit s then Some (int_of_digits s) else None)"

text \<open>convertyear: a year below 100 with no century is moved to within fifty years of the
  current year.\<close>

definition convertyear :: "nat \<Rightarrow> int \<Rightarrow> bool \<Rightarrow> int" where
  "convertyear year_now year century =
     (if year < 100 \<and> \<not> century then
        (let y = year + int (year_now div 100 * 100)
         in if int year_now + 50 \<le> y then y - 100
            else if y < int year_now - 50 then y + 100
            else y)
      else year)"

text \<open>The state of the parse: the list of year, month and day values with its flags, and the
  fields of the result.\<close>

record parse_state =
  ymd :: "int list"
  century_specified :: bool
  mstridx :: "nat option"
  ystridx :: "nat option"
  res_weekday :: "nat option"
  res_hour :: "nat option"
  res_minute :: "nat option"
  res_second :: "nat option"
  res_microsecond :: "nat option"
  res_tzname :: "string option"
  res_tzoffset :: "nat option"
  res_ampm :: "nat option"

definition empty_state :: parse_state where
  "empty_state = \<lparr>ymd = [], century_specified = False, mstridx = None, ystridx = None,
     res_weekday = None, res_hour = None, res_minute = None, res_second = None,
     res_microsecond = None, res_tzname = None, res_tzoffset = None, res_ampm = None\<rparr>"

datatype ymd_label = LabelM | LabelY

text \<open>
  The append of the list. The flag tells that the value is a string of more than two
  digits or a number above 100, which makes it a year. None is the ValueError of a
  month or a year that is already set.
\<close>

definition ymd_append :: "parse_state \<Rightarrow> int \<Rightarrow> ymd_label option \<Rightarrow> bool \<Rightarrow> parse_state option" where
  "ymd_append st val label big =
     (let st1 = st\<lparr>ymd := ymd st @ [val], century_specified := century_specified st \<or> big\<rparr>
      in case (if big then Some LabelY else label) of
           None \<Rightarrow> Some st1
         | Some LabelM \<Rightarrow>
             (if mstridx st \<noteq> None then None else Some (st1\<lparr>mstridx := Some (length (ymd st))\<rparr>))
         | Some LabelY \<Rightarrow>
             (if ystridx st \<noteq> None then None else Some (st1\<lparr>ystridx := Some (length (ymd st))\<rparr>)))"

definition append_str :: "parse_state \<Rightarrow> string \<Rightarrow> ymd_label option \<Rightarrow> parse_state option" where
  "append_str st s label =
     (case to_int s of
        None \<Rightarrow> None
      | Some v \<Rightarrow> ymd_append st (int v) label (2 < length s))"

definition append_num :: "parse_state \<Rightarrow> string \<Rightarrow> parse_state option" where
  "append_num st token =
     ymd_append st (int (int_part token)) None
       (100 < int_part token \<or> (int_part token = 100 \<and> has_fraction token))"

definition adjust_ampm :: "nat \<Rightarrow> nat \<Rightarrow> nat" where
  "adjust_ampm hour ap =
     (if hour < 12 \<and> ap = 1 then hour + 12
      else if hour = 12 \<and> ap = 0 then 0
      else hour)"

text \<open>The number of days of a month as calendar.monthrange gives it, for any integer year:
  its leap year test has a period of 400 years.\<close>

definition monthrange :: "int \<Rightarrow> int \<Rightarrow> nat" where
  "monthrange y m = days_in_month (nat (y mod 400)) (nat m)"

definition could_be_day :: "parse_state \<Rightarrow> string \<Rightarrow> bool" where
  "could_be_day st token =
     (let hi = (case mstridx st of
                  None \<Rightarrow> 31
                | Some mi \<Rightarrow>
                    (case ystridx st of
                       None \<Rightarrow> monthrange 2000 (ymd st ! mi)
                     | Some yi \<Rightarrow> monthrange (ymd st ! yi) (ymd st ! mi)))
      in 1 \<le> int_part token \<and> (int_part token < hi \<or> (int_part token = hi \<and> \<not> has_fraction token)))"

definition find_hms_idx :: "string list \<Rightarrow> nat \<Rightarrow> nat option" where
  "find_hms_idx l idx =
     (if idx + 1 < length l \<and> hms (l ! (idx + 1)) \<noteq> None then Some (idx + 1)
      else if idx + 2 < length l \<and> l ! (idx + 1) = '' '' \<and> hms (l ! (idx + 2)) \<noteq> None then Some (idx + 2)
      else if 0 < idx \<and> hms (l ! (idx - 1)) \<noteq> None then Some (idx - 1)
      else if 1 < idx \<and> idx = length l - 1 \<and> l ! (idx - 1) = '' '' \<and> hms (l ! (idx - 2)) \<noteq> None
      then Some (idx - 2)
      else None)"

definition parsems :: "string \<Rightarrow> (nat \<times> nat) option" where
  "parsems s =
     (if CHR ''.'' \<notin> set s then map_option (\<lambda>v. (v, 0)) (to_int s)
      else
        (case (to_int (takeWhile (\<lambda>c. c \<noteq> CHR ''.'') s),
               to_int (take 6 (drop 1 (dropWhile (\<lambda>c. c \<noteq> CHR ''.'') s) @ ''000000''))) of
           (Some i, Some f) \<Rightarrow> Some (i, f)
         | _ \<Rightarrow> None))"

definition sixtieths :: "string \<Rightarrow> nat" where
  "sixtieths token = 60 * int_of_digits (frac_digits token) div 10 ^ length (frac_digits token)"

definition assign_hms :: "parse_state \<Rightarrow> string \<Rightarrow> nat \<Rightarrow> parse_state option" where
  "assign_hms st token h =
     (if h = 0 then
        Some (if has_fraction token
              then st\<lparr>res_hour := Some (int_part token), res_minute := Some (sixtieths token)\<rparr>
              else st\<lparr>res_hour := Some (int_part token)\<rparr>)
      else if h = 1 then
        Some (st\<lparr>res_minute := Some (int_part token),
                 res_second := (if has_fraction token then Some (sixtieths token) else None)\<rparr>)
      else if h = 2 then
        (case parsems token of
           None \<Rightarrow> None
         | Some (s, us) \<Rightarrow> Some (st\<lparr>res_second := Some s, res_microsecond := Some us\<rparr>))
      else Some st)"

text \<open>
  The numeric token. The value is the number of further tokens that the token takes with
  it, and the new state; None is a ValueError.
\<close>

definition parse_numeric_token :: "string list \<Rightarrow> nat \<Rightarrow> parse_state \<Rightarrow> (nat \<times> parse_state) option" where
  "parse_numeric_token l idx st =
     (let token = l ! idx; len_li = length token
      in if length (ymd st) = 3 \<and> (len_li = 2 \<or> len_li = 4) \<and> res_hour st = None \<and>
            (length l \<le> idx + 1 \<or> (l ! (idx + 1) \<noteq> '':'' \<and> hms (l ! (idx + 1)) = None))
         then
           (case to_int (take 2 token) of
              None \<Rightarrow> None
            | Some h \<Rightarrow>
                if len_li = 4 then
                  (case to_int (drop 2 token) of
                     None \<Rightarrow> None
                   | Some m \<Rightarrow> Some (0, st\<lparr>res_hour := Some h, res_minute := Some m\<rparr>))
                else Some (0, st\<lparr>res_hour := Some h\<rparr>))
         else if len_li = 6 \<or> (6 < len_li \<and> token ! 6 = CHR ''.'') then
           (if ymd st = [] \<and> CHR ''.'' \<notin> set token then
              map_option (Pair 0)
                (Option.bind (append_str st (take 2 token) None) (\<lambda>st1.
                 Option.bind (append_str st1 (take 2 (drop 2 token)) None) (\<lambda>st2.
                 append_str st2 (drop 4 token) None)))
            else
              (case (to_int (take 2 token), to_int (take 2 (drop 2 token)), parsems (drop 4 token)) of
                 (Some h, Some m, Some (s, us)) \<Rightarrow>
                   Some (0, st\<lparr>res_hour := Some h, res_minute := Some m, res_second := Some s,
                               res_microsecond := Some us\<rparr>)
               | _ \<Rightarrow> None))
         else if len_li = 8 \<or> len_li = 12 \<or> len_li = 14 then
           (case Option.bind (append_str st (take 4 token) (Some LabelY)) (\<lambda>st1.
                 Option.bind (append_str st1 (take 2 (drop 4 token)) None) (\<lambda>st2.
                 append_str st2 (take 2 (drop 6 token)) None)) of
              None \<Rightarrow> None
            | Some st3 \<Rightarrow>
                if 8 < len_li then
                  (case (to_int (take 2 (drop 8 token)), to_int (take 2 (drop 10 token))) of
                     (Some h, Some m) \<Rightarrow>
                       if 12 < len_li then
                         (case to_int (drop 12 token) of
                            None \<Rightarrow> None
                          | Some s \<Rightarrow>
                              Some (0, st3\<lparr>res_hour := Some h, res_minute := Some m, res_second := Some s\<rparr>))
                       else Some (0, st3\<lparr>res_hour := Some h, res_minute := Some m\<rparr>)
                   | _ \<Rightarrow> None)
                else Some (0, st3))
         else
           (case find_hms_idx l idx of
              Some hms_idx \<Rightarrow>
                (if idx < hms_idx
                 then map_option (Pair (hms_idx - idx)) (assign_hms st token (the (hms (l ! hms_idx))))
                 else map_option (Pair 0) (assign_hms st token (the (hms (l ! hms_idx)) + 1)))
            | None \<Rightarrow>
                if length l \<le> idx + 1 \<or> jump (l ! (idx + 1)) then
                  (if idx + 2 < length l \<and> ampm (l ! (idx + 2)) \<noteq> None
                   then Some (2, st\<lparr>res_hour := Some (adjust_ampm (int_part token) (the (ampm (l ! (idx + 2)))))\<rparr>)
                   else map_option (Pair 1) (append_num st token))
                else if ampm (l ! (idx + 1)) \<noteq> None \<and> int_part token < 24 then
                  Some (1, st\<lparr>res_hour := Some (adjust_ampm (int_part token) (the (ampm (l ! (idx + 1)))))\<rparr>)
                else if could_be_day st token then map_option (Pair 0) (append_num st token)
                else Some (0, st)))"

definition could_be_tzname :: "parse_state \<Rightarrow> string \<Rightarrow> bool" where
  "could_be_tzname st token =
     (res_hour st \<noteq> None \<and> res_tzname st = None \<and> res_tzoffset st = None \<and> length token \<le> 5 \<and>
      (list_all (\<lambda>c. 65 \<le> ord c \<and> ord c \<le> 90) token \<or> token \<in> set [''UTC'', ''GMT'', ''Z'', ''z'']))"

text \<open>One turn of the loop of the parser on the token at position i, in the order of the
  library: number, weekday, month, AM or PM, zone name, and else a token to skip.\<close>

definition parse_token :: "nat \<Rightarrow> string list \<Rightarrow> nat \<Rightarrow> parse_state \<Rightarrow> (nat \<times> parse_state) option" where
  "parse_token year_now l i st =
     (let token = l ! i
      in if is_number token then parse_numeric_token l i st
         else if not_finite token then None
         else if weekday token \<noteq> None then Some (0, st\<lparr>res_weekday := weekday token\<rparr>)
         else if month token \<noteq> None then
           (case ymd_append st (int (the (month token))) (Some LabelM) False of
              None \<Rightarrow> None
            | Some st1 \<Rightarrow>
                if i + 4 < length l \<and> l ! (i + 1) = '' '' \<and> l ! (i + 3) = '' '' \<and> pertain (l ! (i + 2)) then
                  (if list_all is_digit (l ! (i + 4)) then
                     (let year = convertyear year_now (int (int_of_digits (l ! (i + 4)))) False
                      in map_option (Pair 4) (ymd_append st1 year (Some LabelY) (99 < year)))
                   else Some (4, st1))
                else Some (0, st1))
         else if ampm token \<noteq> None then
           (if res_ampm st = None \<and> res_hour st \<noteq> None \<and> the (res_hour st) \<le> 12
            then Some (0, st\<lparr>res_hour := Some (adjust_ampm (the (res_hour st)) (the (ampm token))),
                             res_ampm := ampm token\<rparr>)
            else Some (0, st))
         else if could_be_tzname st token then
           Some (0, st\<lparr>res_tzname := Some token, res_tzoffset := (if token = ''z'' then Some 0 else None)\<rparr>)
         else Some (0, st))"

function parse_tokens :: "nat \<Rightarrow> string list \<Rightarrow> nat \<Rightarrow> parse_state \<Rightarrow> parse_state option" where
  "parse_tokens year_now l i st =
     (if i < length l then
        (case parse_token year_now l i st of
           None \<Rightarrow> None
         | Some (k, st1) \<Rightarrow> parse_tokens year_now l (i + k + 1) st1)
      else Some st)"
  by pat_completeness auto

termination
  by (relation "measure (\<lambda>(year_now, l, i, st). length l - i)") auto

declare parse_tokens.simps [simp del]

text \<open>
  resolve_ymd: which of the values is the year, the month and the day. None is the
  ValueError of more than three values.
\<close>

definition resolve_ymd :: "parse_state \<Rightarrow> (int option \<times> int option \<times> int option) option" where
  "resolve_ymd st =
     (let y = ymd st; n = length y; ms = mstridx st; ys = ystridx st;
          strids = (if ms = None then 0 else 1) + (if ys = None then 0 else (1::nat))
      in if n = strids \<and> 0 < strids then Some (map_option (nth y) ys, map_option (nth y) ms, None)
         else if n = 3 \<and> strids = 2 then
           Some (map_option (nth y) ys, map_option (nth y) ms,
                 Some (y ! hd (filter (\<lambda>x. Some x \<noteq> ms \<and> Some x \<noteq> ys) [0, 1, 2])))
         else if 3 < n then None
         else if n = 1 \<or> (ms \<noteq> None \<and> n = 2) then
           (let other = (case ms of None \<Rightarrow> y ! 0 | Some mi \<Rightarrow> y ! (1 - mi))
            in if 31 < other then Some (Some other, map_option (nth y) ms, None)
               else Some (None, map_option (nth y) ms, Some other))
         else if n = 2 then
           (if 31 < y ! 0 then Some (Some (y ! 0), Some (y ! 1), None)
            else if 31 < y ! 1 then Some (Some (y ! 1), Some (y ! 0), None)
            else Some (None, Some (y ! 0), Some (y ! 1)))
         else if n = 3 then
           (if ms = Some 0 then
              (if 31 < y ! 1 then Some (Some (y ! 1), Some (y ! 0), Some (y ! 2))
               else Some (Some (y ! 2), Some (y ! 0), Some (y ! 1)))
            else if ms = Some 1 then
              (if 31 < y ! 0 then Some (Some (y ! 0), Some (y ! 1), Some (y ! 2))
               else Some (Some (y ! 2), Some (y ! 1), Some (y ! 0)))
            else if ms = Some 2 then
              (if 31 < y ! 1 then Some (Some (y ! 1), Some (y ! 2), Some (y ! 0))
               else Some (Some (y ! 0), Some (y ! 2), Some (y ! 1)))
            else
              (if 31 < y ! 0 \<or> ys = Some 0 then Some (Some (y ! 0), Some (y ! 1), Some (y ! 2))
               else if 12 < y ! 0 then Some (Some (y ! 2), Some (y ! 1), Some (y ! 0))
               else Some (Some (y ! 2), Some (y ! 0), Some (y ! 1))))
         else Some (None, None, None))"

text \<open>
  The weekday of a date, Monday being 0, and the move to the next day of a given weekday
  that relativedelta makes, which raises OverflowError past the last day of year 9999.
\<close>

definition days_before_year :: "nat \<Rightarrow> nat" where
  "days_before_year y = (y - 1) * 365 + (y - 1) div 4 - (y - 1) div 100 + (y - 1) div 400"

definition days_before_month :: "nat \<Rightarrow> nat \<Rightarrow> nat" where
  "days_before_month y m = sum_list (map (days_in_month y) [1..<m])"

definition weekday_of :: "datetime \<Rightarrow> nat" where
  "weekday_of dt = (days_before_year (dt_year dt) + days_before_month (dt_year dt) (dt_month dt) + dt_day dt + 6) mod 7"

fun add_days :: "nat \<Rightarrow> datetime \<Rightarrow> py_error + datetime" where
  "add_days 0 dt = Inr dt"
| "add_days (Suc k) dt = (case add_one_day dt of Inl e \<Rightarrow> Inl e | Inr d \<Rightarrow> add_days k d)"

text \<open>
  The construction of the datetime: the fields that the text gives replace those of the
  default, a default day past the end of the month falls back to its last day, replace
  raises OverflowError for a value that does not fit a C int and ValueError, which the
  parser turns into ParserError, for a field out of range, and a weekday without a day
  moves the date forward.
\<close>

definition build_naive ::
  "parse_state \<Rightarrow> int option \<Rightarrow> int option \<Rightarrow> int option \<Rightarrow> datetime \<Rightarrow> bool \<Rightarrow> py_error + datetime" where
  "build_naive st year mon day default_date aware =
     (let y = (case year of None \<Rightarrow> int (dt_year default_date) | Some v \<Rightarrow> v);
          m = (case mon of None \<Rightarrow> int (dt_month default_date) | Some v \<Rightarrow> v)
      in if day = None \<and> \<not> (1 \<le> m \<and> m \<le> 12) then Inl ParserError
         else
           (let d = (case day of
                       None \<Rightarrow> int (min (dt_day default_date) (monthrange y m))
                     | Some v \<Rightarrow> v);
                h = (case res_hour st of None \<Rightarrow> 0 | Some v \<Rightarrow> v);
                mi = (case res_minute st of None \<Rightarrow> 0 | Some v \<Rightarrow> v);
                s = (case res_second st of None \<Rightarrow> 0 | Some v \<Rightarrow> v);
                us = (case res_microsecond st of None \<Rightarrow> 0 | Some v \<Rightarrow> v)
            in if list_ex (\<lambda>v. 2147483647 < v) [y, m, d, int h, int mi, int s, int us] then Inl OverflowError
               else if \<not> (1 \<le> y \<and> 1 \<le> m \<and> 1 \<le> d \<and> valid_date (nat y) (nat m) (nat d) \<and>
                          h \<le> 23 \<and> mi \<le> 59 \<and> s \<le> 59 \<and> us \<le> 999999)
               then Inl ParserError
               else
                 (let naive = \<lparr>dt_year = nat y, dt_month = nat m, dt_day = nat d, dt_hour = h, dt_minute = mi,
                                dt_second = s, dt_microsecond = us, dt_aware = aware\<rparr>
                  in case res_weekday st of
                       Some wd \<Rightarrow>
                         if day = None \<or> day = Some 0
                         then add_days ((7 - weekday_of naive + wd) mod 7) naive
                         else Inr naive
                     | None \<Rightarrow> Inr naive)))"

text \<open>
  parse: the tokens, the loop, the resolution, the validation of parserinfo with its
  assertion on the year, the test that the text held anything at all, and the
  construction. Every ValueError of the first three steps is the ParserError of an
  unknown format.
\<close>

definition dateutil_parse :: date_parser where
  "dateutil_parse default_date timestr =
     (case parse_tokens (dt_year default_date) (timelex timestr) 0 empty_state of
        None \<Rightarrow> Inl ParserError
      | Some st \<Rightarrow>
          (case resolve_ymd st of
             None \<Rightarrow> Inl ParserError
           | Some (year, mon, day) \<Rightarrow>
               if year \<noteq> None \<and> the year < 0 then Inl AssertionError
               else
                 (let year1 = map_option (\<lambda>v. convertyear (dt_year default_date) v (century_specified st)) year;
                      utc = (res_tzname st \<noteq> None \<and> the (res_tzname st) \<in> set [''UTC'', ''GMT'', ''Z'', ''z''])
                  in if year1 = None \<and> mon = None \<and> day = None \<and> res_weekday st = None \<and> res_hour st = None \<and>
                        res_minute st = None \<and> res_second st = None \<and> res_microsecond st = None \<and>
                        res_tzname st = None \<and> res_ampm st = None
                     then Inl ParserError
                     else build_naive st year1 mon day default_date utc)))"

section \<open>The transcript recorder of the media relay\<close>

text \<open>
  The two module-level dictionaries of main.py, conversation_transcripts and
  transcript_file_handles, and the files behind the handles. A file is the list of the
  chunks written to it, each write being flushed at once, and a flag that tells whether
  its handle was closed. Writing to an open handle succeeds; writing to a closed one
  raises ValueError.
\<close>

record message =
  msg_timestamp :: datetime
  msg_speaker :: string
  msg_text :: string

record session =
  sess_call_sid :: string
  sess_start_time :: datetime
  messages :: "message list"

record transcript_file =
  tf_chunks :: "string list"
  tf_closed :: bool

record relay_state =
  conversation_transcripts :: "string \<rightharpoonup> session"
  transcript_file_handles :: "string \<rightharpoonup> string"
  files :: "string \<rightharpoonup> transcript_file"

text \<open>The strftime formats of lines 480, 494, 511 and 542; the year comes without padding, as
  in the extractor.\<close>

definition fmt_date :: "datetime \<Rightarrow> string" where
  "fmt_date t = str_nat (dt_year t) @ ''-'' @ zero_pad 2 (dt_month t) @ ''-'' @ zero_pad 2 (dt_day t)"

definition fmt_time :: "datetime \<Rightarrow> string" where
  "fmt_time t = zero_pad 2 (dt_hour t) @ '':'' @ zero_pad 2 (dt_minute t) @ '':'' @ zero_pad 2 (dt_second t)"

definition fmt_stamp :: "datetime \<Rightarrow> string" where
  "fmt_stamp t = str_nat (dt_year t) @ zero_pad 2 (dt_month t) @ zero_pad 2 (dt_day t) @ ''_'' @
     zero_pad 2 (dt_hour t) @ zero_pad 2 (dt_minute t) @ zero_pad 2 (dt_second t)"

definition newline :: string where
  "newline = [CHR 0x0A]"

definition file_write :: "string \<Rightarrow> string \<Rightarrow> relay_state \<Rightarrow> py_error + relay_state" where
  "file_write filename chunk st =
     (case files st filename of
        None \<Rightarrow> Inl ValueError
      | Some f \<Rightarrow>
          if tf_closed f then Inl ValueError
          else Inr (st\<lparr>files := (files st)(filename \<mapsto> f\<lparr>tf_chunks := tf_chunks f @ [chunk]\<rparr>)\<rparr>))"

definition file_close :: "string \<Rightarrow> relay_state \<Rightarrow> relay_state" where
  "file_close filename st =
     (case files st filename of
        None \<Rightarrow> st
      | Some f \<Rightarrow> st\<lparr>files := (files st)(filename \<mapsto> f\<lparr>tf_closed := True\<rparr>)\<rparr>)"

text \<open>main.py, lines 472 to 503.\<close>

definition open_transcript_file :: "string \<Rightarrow> string \<Rightarrow> datetime \<Rightarrow> relay_state \<Rightarrow> relay_state" where
  "open_transcript_file stream_sid call_sid start_time st =
     (let filename = ''call-transcripts/call_'' @ call_sid @ ''_'' @ fmt_stamp start_time @ ''.txt'';
          header = ''AI Interview Call Transcript'' @ newline @
                   ''Call SID: '' @ call_sid @ newline @
                   ''Stream SID: '' @ stream_sid @ newline @
                   ''Date: '' @ fmt_date start_time @ '' '' @ fmt_time start_time @ newline @
                   replicate 50 (CHR ''='') @ newline @ newline
      in st\<lparr>files := (files st)(filename \<mapsto> \<lparr>tf_chunks = [header], tf_closed = False\<rparr>),
             transcript_file_handles := (transcript_file_handles st)(stream_sid \<mapsto> filename)\<rparr>)"

text \<open>main.py, lines 506 to 517. The handler of line 516 catches what the write raises.\<close>

definition transcript_line :: "datetime \<Rightarrow> string \<Rightarrow> string \<Rightarrow> string" where
  "transcript_line now speaker text =
     ''['' @ fmt_time now @ ''] '' @ speaker @ '': '' @ text @ newline @ newline"

definition write_to_transcript_file :: "datetime \<Rightarrow> string \<Rightarrow> string \<Rightarrow> string \<Rightarrow> relay_state \<Rightarrow> relay_state" where
  "write_to_transcript_file now stream_sid speaker text st =
     (case transcript_file_handles st stream_sid of
        None \<Rightarrow> st
      | Some filename \<Rightarrow>
          (case file_write filename (transcript_line now speaker text) st of
             Inl e \<Rightarrow> st
           | Inr st' \<Rightarrow> st'))"

text \<open>main.py, lines 532 to 556. The handler of line 555 catches what the write raises, and
  then nothing after the write has run.\<close>

definition footer :: "datetime \<Rightarrow> string" where
  "footer now = newline @ replicate 50 (CHR ''='') @ newline @
     ''Call ended: '' @ fmt_date now @ '' '' @ fmt_time now @ newline"

definition close_transcript_file :: "datetime \<Rightarrow> string \<Rightarrow> relay_state \<Rightarrow> relay_state" where
  "close_transcript_file now stream_sid st =
     (case transcript_file_handles st stream_sid of
        None \<Rightarrow> st
      | Some filename \<Rightarrow>
          (case file_write filename (footer now) st of
             Inl e \<Rightarrow> st
           | Inr st1 \<Rightarrow>
               (let st2 = file_close filename st1
                in st2\<lparr>transcript_file_handles := (transcript_file_handles st2)(stream_sid := None),
                        conversation_transcripts := (conversation_transcripts st2)(stream_sid := None)\<rparr>)))"

text \<open>The events of the two relay tasks that touch the transcript. A start event of the
  telephony leg (lines 328 to 340) sets the stream id of the connection, registers the
  session and opens the file.\<close>

datatype twilio_event = Media string | Start string string | OtherTwilio

datatype openai_event =
    SessionUpdated
  | AudioDelta string
  | InputTranscriptionCompleted string
  | AudioTranscriptDelta string
  | AudioTranscriptDone
  | ResponseDone
  | SpeechStarted
  | SpeechStopped
  | OtherOpenAI

definition ai_speaker :: string where
  "ai_speaker = ''AI Assistant (Sarah)''"

definition set_messages :: "string \<Rightarrow> message list \<Rightarrow> relay_state \<Rightarrow> relay_state" where
  "set_messages stream_sid msgs st =
     (case conversation_transcripts st stream_sid of
        None \<Rightarrow> st
      | Some sess \<Rightarrow>
          st\<lparr>conversation_transcripts := (conversation_transcripts st)(stream_sid \<mapsto> sess\<lparr>messages := msgs\<rparr>)\<rparr>)"

definition receive_from_twilio ::
    "datetime \<Rightarrow> twilio_event \<Rightarrow> string option \<times> relay_state \<Rightarrow> string option \<times> relay_state" where
  "receive_from_twilio now ev c =
     (case ev of
        Start sid csid \<Rightarrow>
          (Some sid,
           open_transcript_file sid csid now
             ((snd c)\<lparr>conversation_transcripts := (conversation_transcripts (snd c))
                 (sid \<mapsto> \<lparr>sess_call_sid = csid, sess_start_time = now, messages = []\<rparr>)\<rparr>))
      | _ \<Rightarrow> c)"

text \<open>main.py, lines 368 to 456: one event of the speech leg. A caller transcription is
  appended and written at once (lines 389 to 406). An assistant delta is added to the last
  message when that message is the assistant's, and starts a new message otherwise (lines
  407 to 430). The done event writes the text of the last message when it is the
  assistant's (lines 431 to 446).\<close>

definition send_to_twilio :: "datetime \<Rightarrow> openai_event \<Rightarrow> string option \<Rightarrow> relay_state \<Rightarrow> relay_state" where
  "send_to_twilio now ev stream_sid st =
     (case stream_sid of
        None \<Rightarrow> st
      | Some sid \<Rightarrow>
          (case conversation_transcripts st sid of
             None \<Rightarrow> st
           | Some sess \<Rightarrow>
               if sid = [] then st
               else
                 (case ev of
                    InputTranscriptionCompleted transcript \<Rightarrow>
                      if strip transcript \<noteq> [] then
                        write_to_transcript_file now sid ''User'' transcript
                          (set_messages sid
                             (messages sess @ [\<lparr>msg_timestamp = now, msg_speaker = ''User'', msg_text = transcript\<rparr>]) st)
                      else st
                  | AudioTranscriptDelta delta_text \<Rightarrow>
                      if delta_text \<noteq> [] then
                        (if messages sess \<noteq> [] \<and> msg_speaker (last (messages sess)) = ai_speaker
                         then set_messages sid
                                (butlast (messages sess) @
                                   [(last (messages sess))\<lparr>msg_text := msg_text (last (messages sess)) @ delta_text\<rparr>]) st
                         else set_messages sid
                                (messages sess @ [\<lparr>msg_timestamp = now, msg_speaker = ai_speaker, msg_text = delta_text\<rparr>]) st)
                      else st
                  | AudioTranscriptDone \<Rightarrow>
                      if messages sess \<noteq> [] \<and> msg_speaker (last (messages sess)) = ai_speaker
                         \<and> strip (msg_text (last (messages sess))) \<noteq> []
                      then write_to_transcript_file now sid ai_speaker (msg_text (last (messages sess))) st
                      else st
                  | _ \<Rightarrow> st)))"

fun run_openai :: "(datetime \<times> openai_event) list \<Rightarrow> string option \<Rightarrow> relay_state \<Rightarrow> relay_state" where
  "run_openai [] stream_sid st = st"
| "run_openai ((now, ev) # evs) stream_sid st = run_openai evs stream_sid (send_to_twilio now ev stream_sid st)"

definition initial_state :: relay_state where
  "initial_state = \<lparr>conversation_transcripts = Map.empty, transcript_file_handles = Map.empty, files = Map.empty\<rparr>"

section \<open>The texts a pattern can match\<close>

text \<open>
  \<open>matches r u\<close>: the text \<open>u\<close> is in the language of the pattern \<open>r\<close>, the word
  boundary taken as the empty text. \<open>group_ok r (n, t)\<close>: \<open>r\<close> has a group numbered
  \<open>n\<close> whose body can match \<open>t\<close>. They describe what the matcher can return.
\<close>

fun matches :: "bool \<Rightarrow> bool \<Rightarrow> regex \<Rightarrow> string \<Rightarrow> bool" where
  "matches ic da Eps u = (u = [])"
| "matches ic da (Lit w) u = list_all2 (char_eq ic) w u"
| "matches ic da (Rep c lo hi greedy) u =
     (lo \<le> length u \<and> (case hi of None \<Rightarrow> True | Some h \<Rightarrow> length u \<le> h) \<and> list_all (in_class da c) u)"
| "matches ic da (Seq a b) u = (\<exists>i. i \<le> length u \<and> matches ic da a (take i u) \<and> matches ic da b (drop i u))"
| "matches ic da (Alt a b) u = (matches ic da a u \<or> matches ic da b u)"
| "matches ic da (Grp n r) u = matches ic da r u"
| "matches ic da WordB u = (u = [])"

fun group_ok :: "bool \<Rightarrow> bool \<Rightarrow> regex \<Rightarrow> nat \<times> string \<Rightarrow> bool" where
  "group_ok ic da (Grp n r) e = ((fst e = n \<and> matches ic da r (snd e)) \<or> group_ok ic da r e)"
| "group_ok ic da (Seq a b) e = (group_ok ic da a e \<or> group_ok ic da b e)"
| "group_ok ic da (Alt a b) e = (group_ok ic da a e \<or> group_ok ic da b e)"
| "group_ok ic da r e = False"

text \<open>\<open>sets_group r n\<close>: every match of \<open>r\<close> closes the group \<open>n\<close>.\<close>

fun sets_group :: "regex \<Rightarrow> nat \<Rightarrow> bool" where
  "sets_group (Grp k r) n = (k = n \<or> sets_group r n)"
| "sets_group (Seq a b) n = (sets_group a n \<or> sets_group b n)"
| "sets_group (Alt a b) n = (sets_group a n \<and> sets_group b n)"
| "sets_group r n = False"

text \<open>The state after the matcher has read the text \<open>u\<close>, with \<open>rest\<close> still ahead.\<close>

definition consume :: "string \<Rightarrow> string \<Rightarrow> mstate \<Rightarrow> mstate" where
  "consume u rest st = st\<lparr>st_prev := (if u = [] then st_prev st else Some (last u)),
     st_acc := rev u @ st_acc st, st_rest := rest\<rparr>"

section \<open>Evaluating the character functions\<close>

text \<open>Each character function on a character given by its eight bits. With these rules
  the simplifier runs the matcher on a concrete text.\<close>

lemma is_digit_Char:
  "is_digit (Char b0 b1 b2 b3 b4 b5 b6 b7) = (b4 \<and> b5 \<and> \<not> b6 \<and> \<not> b7 \<and> (\<not> b3 \<or> (\<not> b1 \<and> \<not> b2)))"
  by (cases b0; cases b1; cases b2; cases b3; cases b4; cases b5; cases b6; cases b7)
     (simp_all add: is_digit_def ord_def)

lemma is_alpha_Char:
  "is_alpha (Char b0 b1 b2 b3 b4 b5 b6 b7) =
     (b6 \<and> \<not> b7 \<and> (if b4 then \<not> b3 \<or> (\<not> b2 \<and> \<not> (b0 \<and> b1)) else b0 \<or> b1 \<or> b2 \<or> b3))"
  by (cases b0; cases b1; cases b2; cases b3; cases b4; cases b5; cases b6; cases b7)
     (simp_all add: is_alpha_def ord_def)

lemma lower_char_Char:
  "lower_char (Char b0 b1 b2 b3 b4 b5 b6 b7) =
     Char b0 b1 b2 b3 b4
       (b5 \<or> (b6 \<and> \<not> b7 \<and> (if b4 then \<not> b3 \<or> (\<not> b2 \<and> \<not> (b0 \<and> b1)) else b0 \<or> b1 \<or> b2 \<or> b3))
           \<or> (b6 \<and> b7 \<and> \<not> (b4 \<and> b2 \<and> b1 \<and> b0))) b6 b7"
  by (cases b0; cases b1; cases b2; cases b3; cases b4; cases b5; cases b6; cases b7)
     (simp_all add: lower_char_def ord_def char_of_eq_iff)

lemma upper_char_Char:
  "upper_char (Char b0 b1 b2 b3 b4 b5 b6 b7) =
     Char b0 b1 b2 b3 b4
       (b5 \<and> \<not> (b6 \<and> \<not> b7 \<and> (if b4 then \<not> b3 \<or> (\<not> b2 \<and> \<not> (b0 \<and> b1)) else b0 \<or> b1 \<or> b2 \<or> b3))) b6 b7"
  by (cases b0; cases b1; cases b2; cases b3; cases b4; cases b5; cases b6; cases b7)
     (simp_all add: upper_char_def ord_def char_of_eq_iff)

lemma is_space_Char:
  "is_space (Char b0 b1 b2 b3 b4 b5 b6 b7) =
     (if b7 then \<not> b6 \<and> \<not> b4 \<and> \<not> b3 \<and> \<not> b1 \<and> (if b5 then \<not> b0 \<and> \<not> b2 else b0 \<and> b2)
      else \<not> b6 \<and> (if b5 then \<not> b0 \<and> \<not> b1 \<and> \<not> b2 \<and> \<not> b3 \<and> \<not> b4
                    else if b4 then b3 \<and> b2 else b3 \<and> (if b2 then \<not> b1 else b0 \<or> b1)))"
  by (cases b0; cases b1; cases b2; cases b3; cases b4; cases b5; cases b6; cases b7)
     (simp_all add: is_space_def ord_def)

lemma is_word_Char:
  "is_word (Char b0 b1 b2 b3 b4 b5 b6 b7) =
     (if b7 then (if b6 then \<not> (b4 \<and> \<not> b3 \<and> b2 \<and> b1 \<and> b0)
                  else Char b0 b1 b2 b3 b4 b5 b6 b7 \<in>
                    set [CHR 0xAA, CHR 0xB2, CHR 0xB3, CHR 0xB5, CHR 0xB9, CHR 0xBA, CHR 0xBC, CHR 0xBD, CHR 0xBE])
      else is_digit (Char b0 b1 b2 b3 b4 b5 b6 b7) \<or> is_alpha (Char b0 b1 b2 b3 b4 b5 b6 b7)
           \<or> (b0 \<and> b1 \<and> b2 \<and> b3 \<and> b4 \<and> \<not> b5 \<and> b6))"
  by (cases b0; cases b1; cases b2; cases b3; cases b4; cases b5; cases b6; cases b7)
     (simp_all add: is_word_def is_digit_def is_alpha_def ord_def)

lemma digit_val_Char:
  "digit_val (Char b0 b1 b2 b3 True True False False) =
     of_bool b0 + 2 * of_bool b1 + 4 * of_bool b2 + 8 * of_bool b3"
  by (cases b0; cases b1; cases b2; cases b3) (simp_all add: digit_val_def ord_def)

lemma digit_char_simps:
  "digit_char 0 = CHR ''0''" "digit_char 1 = CHR ''1''" "digit_char 2 = CHR ''2''"
  "digit_char 3 = CHR ''3''" "digit_char 4 = CHR ''4''" "digit_char 5 = CHR ''5''"
  "digit_char 6 = CHR ''6''" "digit_char 7 = CHR ''7''" "digit_char 8 = CHR ''8''"
  "digit_char 9 = CHR ''9''" "digit_char (Suc 0) = CHR ''1''"
  by (simp_all add: digit_char_def char_of_eq_iff)

lemmas char_eval = is_digit_Char is_alpha_Char lower_char_Char upper_char_Char is_space_Char
  is_word_Char digit_val_Char digit_char_simps

lemmas rx_defs = standardized_pattern_def seqs_def star_def plus1_def lazy_star_def times_def opt_def
  date_phrase_def legacy_patterns_def time_pattern_def date_patterns_def year_pattern_def
  std_time_pattern_def hm_pattern_def hour_pattern_def strptime_pattern_def month_field_def
  day_field_def

lemmas rx_eval = char_eval rx_defs char_eq_def match_at_def re_search_def advance_def close_group_def
  at_boundary_def grp_def group_text_def re_finditer_def re_findall_def re_finditer_from.simps

lemmas date_eval = strptime_mdy_def strftime_dmy_def valid_date_def days_in_month_def is_leap_def
  mk_date_def infer_year_def replace_year_def dt_less_def dt_key_def add_one_day_def then_format_def
  zero_pad_def str_nat.simps int_of_digits_def strip_def lower_def

lemmas extract_eval = rx_eval date_eval extract_content_def find_slot_def standardized_slot_def
  legacy_slot_def unanchored_slot_def slot_result_def parse_time_def parse_date_def
  legacy_hours_minutes_def hour_only_def to_24h_def hh_mm_def empty_result_def Let_def

lemmas parser_eval = dateutil_parse_def timelex.simps parse_tokens.simps parse_token_def
  parse_numeric_token_def resolve_ymd_def build_naive_def empty_state_def ymd_append_def append_str_def
  append_num_def adjust_ampm_def could_be_day_def find_hms_idx_def parsems_def sixtieths_def
  assign_hms_def could_be_tzname_def convertyear_def jump_def jump_words_def weekday_def
  weekday_names_def month_def month_names_def hms_def hms_names_def ampm_def ampm_names_def
  pertain_def is_number_def not_finite_def int_part_def frac_digits_def has_fraction_def to_int_def
  monthrange_def days_before_year_def days_before_month_def weekday_of_def

lemmas relay_eval = receive_from_twilio_def send_to_twilio_def open_transcript_file_def
  write_to_transcript_file_def close_transcript_file_def file_write_def file_close_def
  set_messages_def initial_state_def transcript_line_def footer_def fmt_date_def fmt_time_def
  fmt_stamp_def ai_speaker_def newline_def mk_date_def zero_pad_def str_nat.simps strip_def
  char_eval Let_def

section \<open>What the matcher returns\<close>

lemma lit_match_sound:
  "lit_match ic w st s = Some st' \<Longrightarrow> st_rest st = s \<Longrightarrow>
     \<exists>u. s = u @ st_rest st' \<and> st_acc st' = rev u @ st_acc st \<and> list_all2 (char_eq ic) w u
        \<and> st_groups st' = st_groups st"
proof (induction ic w st s rule: lit_match.induct)
  case (1 ic st s)
  then show ?case by simp
next
  case (2 ic a w st)
  then show ?case by simp
next
  case (3 ic a w st c s)
  show ?case
  proof (cases "char_eq ic a c")
    case True
    with 3 obtain u where u: "s = u @ st_rest st'" "st_acc st' = rev u @ st_acc (advance c s st)"
        "list_all2 (char_eq ic) w u" "st_groups st' = st_groups (advance c s st)"
      by (auto simp: advance_def)
    show ?thesis
      by (rule exI [of _ "c # u"]) (use u True in \<open>simp add: advance_def\<close>)
  next
    case False
    with 3 show ?thesis by simp
  qed
qed

lemma rep_upto_sound:
  "st' \<in> set (drop lo (rep_upto P hi st s)) \<Longrightarrow> st_rest st = s \<Longrightarrow>
     \<exists>u. s = u @ st_rest st' \<and> st_acc st' = rev u @ st_acc st \<and> lo \<le> length u
        \<and> (case hi of None \<Rightarrow> True | Some h \<Rightarrow> length u \<le> h) \<and> list_all P u
        \<and> st_groups st' = st_groups st"
proof (induction P hi st s arbitrary: lo rule: rep_upto.induct)
  case (1 P hi st)
  then show ?case by (cases lo) (auto split: option.splits)
next
  case (2 P hi st c s)
  let ?next = "rep_upto P (map_option (\<lambda>h. h - 1) hi) (advance c s st) s"
  have step: "\<exists>u. c # s = u @ st_rest st' \<and> st_acc st' = rev u @ st_acc st \<and> Suc k \<le> length u
        \<and> (case hi of None \<Rightarrow> True | Some h \<Rightarrow> length u \<le> h) \<and> list_all P u
        \<and> st_groups st' = st_groups st"
    if cond: "hi \<noteq> Some 0 \<and> P c" and mem: "st' \<in> set (drop k ?next)" for k
  proof -
    have "st_rest (advance c s st) = s"
      by (simp add: advance_def)
    from "2.IH" [OF cond mem this] obtain u where u: "s = u @ st_rest st'"
        "st_acc st' = rev u @ st_acc (advance c s st)" "k \<le> length u"
        "(case map_option (\<lambda>h. h - 1) hi of None \<Rightarrow> True | Some h \<Rightarrow> length u \<le> h)" "list_all P u"
        "st_groups st' = st_groups (advance c s st)"
      by blast
    show ?thesis
      by (rule exI [of _ "c # u"]) (use u cond in \<open>auto simp add: advance_def split: option.splits\<close>)
  qed
  show ?case
  proof (cases lo)
    case 0
    show ?thesis
    proof (cases "st' = st")
      case True
      have "c # s = [] @ st_rest st' \<and> st_acc st' = rev [] @ st_acc st \<and> lo \<le> length ([] :: string)
        \<and> (case hi of None \<Rightarrow> True | Some h \<Rightarrow> length ([] :: string) \<le> h) \<and> list_all P []
        \<and> st_groups st' = st_groups st"
        using True "2.prems"(2) 0 by (simp split: option.splits)
      then show ?thesis by blast
    next
      case False
      with "2.prems"(1) 0 have cond: "hi \<noteq> Some 0 \<and> P c" and mem: "st' \<in> set (drop 0 ?next)"
        by (auto split: if_splits)
      from step [OF cond mem] 0 show ?thesis by auto
    qed
  next
    case (Suc lo')
    with "2.prems"(1) have cond: "hi \<noteq> Some 0 \<and> P c" and mem: "st' \<in> set (drop lo' ?next)"
      by (auto split: if_splits)
    from step [OF cond mem] Suc show ?thesis by auto
  qed
qed


lemma ms_sound:
  "st' \<in> set (ms ic da r st) \<Longrightarrow>
     \<exists>u new. st_rest st = u @ st_rest st' \<and> st_acc st' = rev u @ st_acc st \<and> matches ic da r u
        \<and> st_groups st' = new @ st_groups st \<and> list_all (group_ok ic da r) new"
proof (induction r arbitrary: st st')
  case Eps
  then show ?case by simp
next
  case (Lit w)
  then have "lit_match ic w st (st_rest st) = Some st'"
    by (simp split: option.splits)
  from lit_match_sound [OF this] obtain u where "st_rest st = u @ st_rest st'"
      "st_acc st' = rev u @ st_acc st" "list_all2 (char_eq ic) w u" "st_groups st' = st_groups st"
    by auto
  then have "st_rest st = u @ st_rest st' \<and> st_acc st' = rev u @ st_acc st \<and> matches ic da (Lit w) u
        \<and> st_groups st' = [] @ st_groups st \<and> list_all (group_ok ic da (Lit w)) []"
    by simp
  then show ?case by blast
next
  case (Rep c lo hi greedy)
  then have "st' \<in> set (drop lo (rep_upto (in_class da c) hi st (st_rest st)))"
    by (simp split: if_splits)
  from rep_upto_sound [OF this] obtain u where "st_rest st = u @ st_rest st'"
      "st_acc st' = rev u @ st_acc st" "lo \<le> length u"
      "(case hi of None \<Rightarrow> True | Some h \<Rightarrow> length u \<le> h)" "list_all (in_class da c) u"
      "st_groups st' = st_groups st"
    by auto
  then have "st_rest st = u @ st_rest st' \<and> st_acc st' = rev u @ st_acc st
        \<and> matches ic da (Rep c lo hi greedy) u
        \<and> st_groups st' = [] @ st_groups st \<and> list_all (group_ok ic da (Rep c lo hi greedy)) []"
    by simp
  then show ?case by blast
next
  case (Seq a b)
  then obtain st1 where st1: "st1 \<in> set (ms ic da a st)" and st': "st' \<in> set (ms ic da b st1)"
    by auto
  from Seq.IH(1) [OF st1] obtain u1 new1 where a: "st_rest st = u1 @ st_rest st1"
      "st_acc st1 = rev u1 @ st_acc st" "matches ic da a u1"
      "st_groups st1 = new1 @ st_groups st" "list_all (group_ok ic da a) new1"
    by blast
  from Seq.IH(2) [OF st'] obtain u2 new2 where b: "st_rest st1 = u2 @ st_rest st'"
      "st_acc st' = rev u2 @ st_acc st1" "matches ic da b u2"
      "st_groups st' = new2 @ st_groups st1" "list_all (group_ok ic da b) new2"
    by blast
  have m: "matches ic da (Seq a b) (u1 @ u2)"
    using a(3) b(3) by (auto intro!: exI [of _ "length u1"])
  have g: "list_all (group_ok ic da (Seq a b)) (new2 @ new1)"
    using a(5) b(5) by (auto simp: list_all_iff)
  have "st_rest st = (u1 @ u2) @ st_rest st' \<and> st_acc st' = rev (u1 @ u2) @ st_acc st
        \<and> matches ic da (Seq a b) (u1 @ u2)
        \<and> st_groups st' = (new2 @ new1) @ st_groups st \<and> list_all (group_ok ic da (Seq a b)) (new2 @ new1)"
    using a b m g by simp
  then show ?case by blast
next
  case (Alt a b)
  then consider "st' \<in> set (ms ic da a st)" | "st' \<in> set (ms ic da b st)"
    by auto
  then show ?case
  proof cases
    case 1
    from Alt.IH(1) [OF 1] obtain u new where "st_rest st = u @ st_rest st'"
      "st_acc st' = rev u @ st_acc st" "matches ic da a u"
      "st_groups st' = new @ st_groups st" "list_all (group_ok ic da a) new"
      by blast
    then have "st_rest st = u @ st_rest st' \<and> st_acc st' = rev u @ st_acc st \<and> matches ic da (Alt a b) u
        \<and> st_groups st' = new @ st_groups st \<and> list_all (group_ok ic da (Alt a b)) new"
      by (auto simp: list_all_iff)
    then show ?thesis by blast
  next
    case 2
    from Alt.IH(2) [OF 2] obtain u new where "st_rest st = u @ st_rest st'"
      "st_acc st' = rev u @ st_acc st" "matches ic da b u"
      "st_groups st' = new @ st_groups st" "list_all (group_ok ic da b) new"
      by blast
    then have "st_rest st = u @ st_rest st' \<and> st_acc st' = rev u @ st_acc st \<and> matches ic da (Alt a b) u
        \<and> st_groups st' = new @ st_groups st \<and> list_all (group_ok ic da (Alt a b)) new"
      by (auto simp: list_all_iff)
    then show ?thesis by blast
  qed
next
  case (Grp n r)
  then obtain st1 where st1: "st1 \<in> set (ms ic da r (st\<lparr>st_acc := []\<rparr>))"
    and st': "st' = close_group n (st_acc st) st1"
    by auto
  from Grp.IH [OF st1] obtain u new where r: "st_rest st = u @ st_rest st1"
      "st_acc st1 = rev u" "matches ic da r u"
      "st_groups st1 = new @ st_groups st" "list_all (group_ok ic da r) new"
    by auto
  have "st_rest st = u @ st_rest st' \<and> st_acc st' = rev u @ st_acc st \<and> matches ic da (Grp n r) u
        \<and> st_groups st' = ((n, u) # new) @ st_groups st \<and> list_all (group_ok ic da (Grp n r)) ((n, u) # new)"
    using r st' by (auto simp: close_group_def list_all_iff)
  then show ?case by blast
next
  case WordB
  then show ?case by (simp split: if_splits)
qed


lemma digit_cases:
  "is_digit c \<Longrightarrow> c \<in> set ''0123456789''"
  by (cases c) (auto simp add: is_digit_Char)

lemma digit_not_other:
  "is_digit c \<Longrightarrow> \<not> is_digit (Char b0 b1 b2 b3 b4 b5 b6 b7) \<Longrightarrow> (Char b0 b1 b2 b3 b4 b5 b6 b7 = c) = False"
  "is_digit c \<Longrightarrow> \<not> is_digit (Char b0 b1 b2 b3 b4 b5 b6 b7) \<Longrightarrow> (c = Char b0 b1 b2 b3 b4 b5 b6 b7) = False"
  by auto

lemma digit_lower: "is_digit c \<Longrightarrow> lower_char c = c"
  by (cases c) (auto simp add: is_digit_Char lower_char_Char)

lemma digit_not_space: "is_digit c \<Longrightarrow> \<not> is_space c"
  by (cases c) (auto simp add: is_digit_Char is_space_Char)

lemma digit_not_alpha: "is_digit c \<Longrightarrow> \<not> is_alpha c"
  by (cases c) (auto simp add: is_digit_Char is_alpha_Char)

lemma space_lower: "is_space c \<Longrightarrow> lower_char c = c"
  by (cases c) (auto simp add: is_space_Char lower_char_Char split: if_splits)

lemma rep_upto_nonempty: "rep_upto P hi st s \<noteq> []"
  by (cases s) simp_all

lemma rep_upto_last:
  "list_all P u \<Longrightarrow> (rest = [] \<or> \<not> P (hd rest)) \<Longrightarrow> st_rest st = u @ rest \<Longrightarrow>
     last (rep_upto P None st (u @ rest)) = consume u rest st"
proof (induction u arbitrary: st)
  case Nil
  then show ?case by (cases rest) (auto simp: consume_def)
next
  case (Cons c u)
  have "last (rep_upto P None (advance c (u @ rest) st) (u @ rest)) = consume u rest (advance c (u @ rest) st)"
    using Cons by (simp add: advance_def)
  then show ?case
    using Cons.prems by (simp add: rep_upto_nonempty consume_def advance_def)
qed

lemma greedy_star_head:
  assumes "list_all P u" and "rest = [] \<or> \<not> P (hd rest)" and "st_rest st = u @ rest"
  shows "rev (rep_upto P None st (u @ rest)) = consume u rest st # rev (butlast (rep_upto P None st (u @ rest)))"
proof -
  have "rep_upto P None st (u @ rest) = butlast (rep_upto P None st (u @ rest)) @ [last (rep_upto P None st (u @ rest))]"
    by (simp add: rep_upto_nonempty)
  then have "rev (rep_upto P None st (u @ rest)) = last (rep_upto P None st (u @ rest)) # rev (butlast (rep_upto P None st (u @ rest)))"
    by (metis rev.simps(2) rev_rev_ident rev_singleton_conv rev_append append_Cons append_Nil)
  then show ?thesis
    using rep_upto_last [OF assms] by simp
qed


lemma in_class_fun:
  "in_class da CDigit = is_digit" "in_class da CSpace = is_space" "in_class da CAlpha = is_alpha"
  by (rule ext, simp)+

lemma upper_char_A: "upper_char x = CHR ''A'' \<Longrightarrow> x = CHR ''A'' \<or> x = CHR ''a''"
  by (cases x) (auto simp add: upper_char_Char split: if_splits)

lemma upper_char_P: "upper_char x = CHR ''P'' \<Longrightarrow> x = CHR ''P'' \<or> x = CHR ''p''"
  by (cases x) (auto simp add: upper_char_Char split: if_splits)

lemma upper_char_M: "upper_char x = CHR ''M'' \<Longrightarrow> x = CHR ''M'' \<or> x = CHR ''m''"
  by (cases x) (auto simp add: upper_char_Char split: if_splits)

lemma am_pm_cases:
  assumes "map upper_char ap = ''AM'' \<or> map upper_char ap = ''PM''"
  shows "ap \<in> set [''AM'', ''Am'', ''aM'', ''am'', ''PM'', ''Pm'', ''pM'', ''pm'']"
proof -
  from assms obtain x y where ap: "ap = [x, y]"
    by (cases ap; cases "tl ap") auto
  with assms have "(upper_char x = CHR ''A'' \<or> upper_char x = CHR ''P'') \<and> upper_char y = CHR ''M''"
    by auto
  then have "(x = CHR ''A'' \<or> x = CHR ''a'' \<or> x = CHR ''P'' \<or> x = CHR ''p'') \<and> (y = CHR ''M'' \<or> y = CHR ''m'')"
    using upper_char_A upper_char_P upper_char_M by blast
  with ap show ?thesis by auto
qed

lemma rep_upto_zero: "rep_upto P (Some 0) st s = [st]"
  by (cases s) simp_all

lemma std_time_search:
  assumes h: "list_all is_digit h" "length h = 1 \<or> length h = 2"
      and mi: "list_all is_digit mi" "length mi = 2"
      and ws: "list_all is_space ws"
      and ap: "ap \<in> set [''AM'', ''Am'', ''aM'', ''am'', ''PM'', ''Pm'', ''pM'', ''pm'']"
  shows "\<exists>m. re_search True False std_time_pattern (h @ '':'' @ mi @ ws @ ap) = Some m
           \<and> grp m 1 = h \<and> grp m 2 = mi \<and> grp m 3 = ap"
proof -
  from mi obtain c d where mi': "mi = [c, d]" "is_digit c" "is_digit d"
    by (cases mi; cases "tl mi") auto
  from h consider a where "h = [a]" "is_digit a" | a b where "h = [a, b]" "is_digit a" "is_digit b"
    by (cases h; cases "tl h") auto
  then show ?thesis
  proof cases
    case 1
    with mi' ws ap show ?thesis
      by (auto simp add: rx_eval in_class_fun digit_not_other digit_lower greedy_star_head rep_upto_zero consume_def)
  next
    case 2
    with mi' ws ap show ?thesis
      by (auto simp add: rx_eval in_class_fun digit_not_other digit_lower greedy_star_head rep_upto_zero consume_def)
  qed
qed


lemma ms_sets_group:
  "st' \<in> set (ms ic da r st) \<Longrightarrow>
     \<exists>new. st_groups st' = new @ st_groups st \<and> (sets_group r n \<longrightarrow> n \<in> fst ` set new)"
proof (induction r arbitrary: st st')
  case (Seq a b)
  then obtain st1 where st1: "st1 \<in> set (ms ic da a st)" and st': "st' \<in> set (ms ic da b st1)"
    by auto
  from Seq.IH(1) [OF st1] obtain new1 where a: "st_groups st1 = new1 @ st_groups st"
      "sets_group a n \<longrightarrow> n \<in> fst ` set new1"
    by blast
  from Seq.IH(2) [OF st'] obtain new2 where b: "st_groups st' = new2 @ st_groups st1"
      "sets_group b n \<longrightarrow> n \<in> fst ` set new2"
    by blast
  have "st_groups st' = (new2 @ new1) @ st_groups st \<and> (sets_group (Seq a b) n \<longrightarrow> n \<in> fst ` set (new2 @ new1))"
    using a b by auto
  then show ?case by blast
next
  case (Alt a b)
  then consider "st' \<in> set (ms ic da a st)" | "st' \<in> set (ms ic da b st)"
    by auto
  then show ?case
  proof cases
    case 1
    from Alt.IH(1) [OF 1] show ?thesis by auto
  next
    case 2
    from Alt.IH(2) [OF 2] show ?thesis by auto
  qed
next
  case (Grp k r)
  then obtain st1 where st1: "st1 \<in> set (ms ic da r (st\<lparr>st_acc := []\<rparr>))"
    and st': "st' = close_group k (st_acc st) st1"
    by auto
  from Grp.IH [OF st1] obtain new where r: "st_groups st1 = new @ st_groups st"
      "sets_group r n \<longrightarrow> n \<in> fst ` set new"
    by auto
  have "st_groups st' = ((k, rev (st_acc st1)) # new) @ st_groups st
          \<and> (sets_group (Grp k r) n \<longrightarrow> n \<in> fst ` set ((k, rev (st_acc st1)) # new))"
    using r st' by (auto simp: close_group_def)
  then show ?case by blast
next
  case (Lit w)
  then have "lit_match ic w st (st_rest st) = Some st'"
    by (simp split: option.splits)
  from lit_match_sound [OF this] show ?case by auto
next
  case (Rep c lo hi greedy)
  then have "st' \<in> set (drop lo (rep_upto (in_class da c) hi st (st_rest st)))"
    by (simp split: if_splits)
  from rep_upto_sound [OF this] show ?case by auto
qed (auto split: if_splits)

lemma match_at_sound:
  assumes "match_at ic da r p s = Some m"
  shows "s = m_group0 m @ m_rest m \<and> matches ic da r (m_group0 m)
       \<and> list_all (group_ok ic da r) (m_groups m)
       \<and> (sets_group r n \<longrightarrow> n \<in> fst ` set (m_groups m))"
proof -
  let ?st = "\<lparr>st_prev = p, st_acc = [], st_rest = s, st_groups = []\<rparr>"
  from assms obtain st' where st': "st' \<in> set (ms ic da r ?st)"
    and m: "m = \<lparr>m_group0 = rev (st_acc st'), m_groups = st_groups st', m_prev = st_prev st', m_rest = st_rest st'\<rparr>"
    by (auto simp: match_at_def split: list.splits)
  from ms_sound [OF st'] obtain u new where "st_rest ?st = u @ st_rest st'"
      "st_acc st' = rev u @ st_acc ?st" "matches ic da r u"
      "st_groups st' = new @ st_groups ?st" "list_all (group_ok ic da r) new"
    by blast
  moreover from ms_sets_group [OF st', of n] have "sets_group r n \<longrightarrow> n \<in> fst ` set (st_groups st')"
    by auto
  ultimately show ?thesis
    using m by simp
qed

lemma re_search_from_sound:
  "re_search_from ic da r p s = Some m \<Longrightarrow>
     (\<exists>pre. s = pre @ m_group0 m @ m_rest m) \<and> matches ic da r (m_group0 m)
       \<and> list_all (group_ok ic da r) (m_groups m)
       \<and> (sets_group r n \<longrightarrow> n \<in> fst ` set (m_groups m))"
proof (induction s arbitrary: p)
  case Nil
  then have "match_at ic da r p [] = Some m" by simp
  from match_at_sound [OF this, of n] show ?case by auto
next
  case (Cons c s)
  show ?case
  proof (cases "match_at ic da r p (c # s)")
    case None
    with Cons.prems have "re_search_from ic da r (Some c) s = Some m" by simp
    from Cons.IH [OF this] show ?thesis
      by (metis append_Cons)
  next
    case (Some m')
    with Cons.prems have "match_at ic da r p (c # s) = Some m" by simp
    from match_at_sound [OF this, of n] show ?thesis
      by (metis append_Nil)
  qed
qed

lemma group_present:
  assumes "list_all (group_ok ic da r) g" and "n \<in> fst ` set g"
  shows "group_ok ic da r (n, group_text g n)"
proof -
  from assms(2) obtain t where "map_of g n = Some t"
    by (metis domD dom_map_of_conv_image_fst)
  moreover from this have "(n, t) \<in> set g"
    by (rule map_of_SomeD)
  ultimately show ?thesis
    using assms(1) by (auto simp: group_text_def list_all_iff)
qed

lemma search_group:
  assumes "re_search ic da r s = Some m" and "sets_group r n"
  shows "group_ok ic da r (n, grp m n)"
  using re_search_from_sound [of ic da r None s m n] assms group_present [of ic da r "m_groups m" n]
  by (simp add: re_search_def grp_def)


lemma matches_Seq:
  "matches ic da (Seq a b) u = (\<exists>u1 u2. u = u1 @ u2 \<and> matches ic da a u1 \<and> matches ic da b u2)"
proof
  assume "matches ic da (Seq a b) u"
  then obtain i where "matches ic da a (take i u)" "matches ic da b (drop i u)"
    by auto
  then show "\<exists>u1 u2. u = u1 @ u2 \<and> matches ic da a u1 \<and> matches ic da b u2"
    by (metis append_take_drop_id)
next
  assume "\<exists>u1 u2. u = u1 @ u2 \<and> matches ic da a u1 \<and> matches ic da b u2"
  then obtain u1 u2 where "u = u1 @ u2" "matches ic da a u1" "matches ic da b u2"
    by blast
  then show "matches ic da (Seq a b) u"
    by (auto intro!: exI [of _ "length u1"])
qed

lemma lower_char_dash: "lower_char x = CHR ''-'' \<Longrightarrow> x = CHR ''-''"
  by (cases x) (auto simp add: lower_char_Char split: if_splits)

lemma lower_char_colon: "lower_char x = CHR '':'' \<Longrightarrow> x = CHR '':''"
  by (cases x) (auto simp add: lower_char_Char split: if_splits)

lemma lower_char_a: "lower_char x = CHR ''a'' \<Longrightarrow> x = CHR ''A'' \<or> x = CHR ''a''"
  by (cases x) (auto simp add: lower_char_Char split: if_splits)

lemma lower_char_p: "lower_char x = CHR ''p'' \<Longrightarrow> x = CHR ''P'' \<or> x = CHR ''p''"
  by (cases x) (auto simp add: lower_char_Char split: if_splits)

lemma lower_char_m: "lower_char x = CHR ''m'' \<Longrightarrow> x = CHR ''M'' \<or> x = CHR ''m''"
  by (cases x) (auto simp add: lower_char_Char split: if_splits)

lemma matches_dash: "list_all2 (char_eq True) ''-'' u \<Longrightarrow> u = ''-''"
  by (cases u; cases "tl u") (auto simp add: char_eq_def char_eval dest: lower_char_dash [OF sym])

lemma matches_colon: "list_all2 (char_eq True) '':'' u \<Longrightarrow> u = '':''"
  by (cases u; cases "tl u") (auto simp add: char_eq_def char_eval dest: lower_char_colon [OF sym])

lemma matches_am_pm:
  assumes "matches True da (Alt (Lit ''AM'') (Lit ''PM'')) u"
  shows "u \<in> set [''AM'', ''Am'', ''aM'', ''am'', ''PM'', ''Pm'', ''pM'', ''pm'']"
proof -
  from assms obtain x y where u: "u = [x, y]"
    by (cases u; cases "tl u"; cases "tl (tl u)") auto
  with assms have "(lower_char x = CHR ''a'' \<or> lower_char x = CHR ''p'') \<and> lower_char y = CHR ''m''"
    by (auto simp add: char_eq_def char_eval)
  then have "(x = CHR ''A'' \<or> x = CHR ''a'' \<or> x = CHR ''P'' \<or> x = CHR ''p'') \<and> (y = CHR ''M'' \<or> y = CHR ''m'')"
    using lower_char_a lower_char_p lower_char_m by blast
  with u show ?thesis by auto
qed

lemma standardized_date_shape:
  assumes "re_search True False standardized_pattern content = Some m"
  shows "\<exists>mo dd yy. grp m 1 = mo @ ''-'' @ dd @ ''-'' @ yy
           \<and> list_all is_digit mo \<and> length mo = 2 \<and> list_all is_digit dd \<and> length dd = 2
           \<and> list_all is_digit yy \<and> length yy = 4"
proof -
  have "sets_group standardized_pattern 1"
    by (simp add: rx_defs)
  from search_group [OF assms this]
  have "matches True False (seqs [times CDigit 2 2, Lit ''-'', times CDigit 2 2, Lit ''-'', times CDigit 4 4]) (grp m 1)"
    by (simp add: rx_defs)
  then obtain mo u1 dd u2 yy where "grp m 1 = mo @ u1 @ dd @ u2 @ yy"
      "matches True False (times CDigit 2 2) mo" "matches True False (Lit ''-'') u1"
      "matches True False (times CDigit 2 2) dd" "matches True False (Lit ''-'') u2"
      "matches True False (times CDigit 4 4) yy"
    by (auto simp add: seqs_def matches_Seq simp del: matches.simps(2,3,4))
  then have "grp m 1 = mo @ ''-'' @ dd @ ''-'' @ yy
           \<and> list_all is_digit mo \<and> length mo = 2 \<and> list_all is_digit dd \<and> length dd = 2
           \<and> list_all is_digit yy \<and> length yy = 4"
    by (auto simp add: times_def in_class_fun dest!: matches_dash)
  then show ?thesis by blast
qed

lemma standardized_time_shape:
  assumes "re_search True False standardized_pattern content = Some m"
  shows "\<exists>h mi ws ap. grp m 2 = h @ '':'' @ mi @ ws @ ap
           \<and> list_all is_digit h \<and> (length h = 1 \<or> length h = 2) \<and> list_all is_digit mi \<and> length mi = 2
           \<and> list_all is_space ws
           \<and> ap \<in> set [''AM'', ''Am'', ''aM'', ''am'', ''PM'', ''Pm'', ''pM'', ''pm'']"
proof -
  have "sets_group standardized_pattern 2"
    by (simp add: rx_defs)
  from search_group [OF assms this]
  have "matches True False (seqs [times CDigit 1 2, Lit '':'', times CDigit 2 2, star CSpace,
                   alts [Lit ''AM'', Lit ''PM'']]) (grp m 2)"
    by (simp add: rx_defs)
  then obtain h u1 mi ws ap where "grp m 2 = h @ u1 @ mi @ ws @ ap"
      "matches True False (times CDigit 1 2) h" "matches True False (Lit '':'') u1"
      "matches True False (times CDigit 2 2) mi" "matches True False (star CSpace) ws"
      "matches True False (Alt (Lit ''AM'') (Lit ''PM'')) ap"
    by (auto simp add: seqs_def matches_Seq simp del: matches.simps(2,3,4,5))
  then have "grp m 2 = h @ '':'' @ mi @ ws @ ap
           \<and> list_all is_digit h \<and> (length h = 1 \<or> length h = 2) \<and> list_all is_digit mi \<and> length mi = 2
           \<and> list_all is_space ws
           \<and> ap \<in> set [''AM'', ''Am'', ''aM'', ''am'', ''PM'', ''Pm'', ''pM'', ''pm'']"
    using matches_am_pm [of False ap]
    by (auto simp add: times_def star_def in_class_fun simp del: list.set dest!: matches_colon)
  then show ?thesis by blast
qed


lemma dropWhile_id: "s \<noteq> [] \<Longrightarrow> \<not> P (hd s) \<Longrightarrow> dropWhile P s = s"
  by (cases s) auto

lemma strip_id:
  assumes "s \<noteq> []" and "\<not> is_space (hd s)" and "\<not> is_space (last s)"
  shows "strip s = s"
proof -
  have "dropWhile is_space s = s"
    using assms(1,2) by (rule dropWhile_id)
  moreover have "dropWhile is_space (rev s) = rev s"
    using assms(1,3) by (intro dropWhile_id) (simp_all add: hd_rev)
  ultimately show ?thesis
    by (simp add: strip_def)
qed

lemma contains_hd: "contains w s \<Longrightarrow> w \<noteq> [] \<Longrightarrow> hd w \<in> set s"
proof (induction s)
  case Nil
  then show ?case by simp
next
  case (Cons c s)
  then show ?case by (cases w) auto
qed

lemma digits_not_relative:
  assumes "list_all (\<lambda>c. is_digit c \<or> c = CHR ''-'') s"
  shows "\<not> contains ''tomorrow'' (lower s)" and "\<not> contains ''today'' (lower s)"
proof -
  have "CHR ''t'' \<notin> set (lower s)"
  proof
    assume "CHR ''t'' \<in> set (lower s)"
    then obtain c where c: "c \<in> set s" "lower_char c = CHR ''t''"
      by (auto simp: lower_def)
    with assms have "is_digit c \<or> c = CHR ''-''"
      by (auto simp: list_all_iff)
    with c(2) show False
      by (auto simp add: digit_lower char_eval)
  qed
  then show "\<not> contains ''tomorrow'' (lower s)" and "\<not> contains ''today'' (lower s)"
    using contains_hd [of "''tomorrow''" "lower s"] contains_hd [of "''today''" "lower s"] by auto
qed

lemma std_time_parse:
  assumes h: "list_all is_digit h" "length h = 1 \<or> length h = 2"
      and mi: "list_all is_digit mi" "length mi = 2"
      and ws: "list_all is_space ws"
      and ap: "ap \<in> set [''AM'', ''Am'', ''aM'', ''am'', ''PM'', ''Pm'', ''pM'', ''pm'']"
  shows "parse_time \<lparr>date_text = d, time_text = h @ '':'' @ mi @ ws @ ap, full_match = f,
                      format_type = Some Standardized\<rparr>
           = hh_mm (to_24h (map upper_char ap = ''PM'') (map upper_char ap = ''AM'') (int_of_digits h))
               (int_of_digits mi)"
proof -
  from std_time_search [OF assms] obtain m where
    "re_search True False std_time_pattern (h @ '':'' @ mi @ ws @ ap) = Some m"
    "grp m 1 = h" "grp m 2 = mi" "grp m 3 = ap"
    by blast
  then show ?thesis
    by (simp add: parse_time_def Let_def)
qed

lemma std_time_strip:
  assumes h: "list_all is_digit h" "length h = 1 \<or> length h = 2"
      and ap: "ap \<in> set [''AM'', ''Am'', ''aM'', ''am'', ''PM'', ''Pm'', ''pM'', ''pm'']"
  shows "strip (h @ '':'' @ mi @ ws @ ap) = h @ '':'' @ mi @ ws @ ap"
proof (rule strip_id)
  show "h @ '':'' @ mi @ ws @ ap \<noteq> []" by simp
  from h obtain a h' where "h = a # h'" "is_digit a"
    by (cases h) auto
  then show "\<not> is_space (hd (h @ '':'' @ mi @ ws @ ap))"
    by (simp add: digit_not_space)
  from ap show "\<not> is_space (last (h @ '':'' @ mi @ ws @ ap))"
    by (auto simp add: char_eval)
qed

lemma std_date_strip:
  assumes "list_all is_digit mo" "length mo = 2" "list_all is_digit yy" "length yy = 4"
  shows "strip (mo @ ''-'' @ dd @ ''-'' @ yy) = mo @ ''-'' @ dd @ ''-'' @ yy"
proof (rule strip_id)
  show "mo @ ''-'' @ dd @ ''-'' @ yy \<noteq> []" by simp
  from assms obtain a mo' where "mo = a # mo'" "is_digit a"
    by (cases mo) auto
  then show "\<not> is_space (hd (mo @ ''-'' @ dd @ ''-'' @ yy))"
    by (simp add: digit_not_space)
  from assms have "yy \<noteq> []"
    by auto
  moreover from this assms have "is_digit (last yy)"
    using last_in_set [of yy] by (auto simp: list_all_iff)
  ultimately have "yy \<noteq> []" "is_digit (last yy)" .
  then show "\<not> is_space (last (mo @ ''-'' @ dd @ ''-'' @ yy))"
    by (simp add: digit_not_space)
qed

section \<open>Digits and their values\<close>

lemma digit_val_lt: "is_digit c \<Longrightarrow> digit_val c < 10"
  by (auto simp: is_digit_def digit_val_def)

lemma digit_char_val: "is_digit c \<Longrightarrow> digit_char (digit_val c) = c"
  by (auto simp: is_digit_def digit_val_def digit_char_def ord_def)

lemma str_nat_step:
  "r < 10 \<Longrightarrow> str_nat (10 * q + r) = (if q = 0 then [digit_char r] else str_nat q @ [digit_char r])"
  by (subst str_nat.simps) auto

lemma str_nat_nonempty: "str_nat n \<noteq> []"
  by (subst str_nat.simps) simp

lemma zero_pad_step:
  assumes "r < 10" and "1 \<le> w"
  shows "zero_pad (Suc w) (10 * q + r) = zero_pad w q @ [digit_char r]"
proof (cases "q = 0")
  case True
  have "str_nat 0 = [digit_char 0]"
    by (subst str_nat.simps) simp
  moreover have "replicate (w - 1) (CHR ''0'') @ [CHR ''0''] = replicate w (CHR ''0'')"
    using assms(2) by (cases w) (simp_all add: replicate_append_same)
  moreover have "str_nat r = [digit_char r]"
    using assms(1) by (subst str_nat.simps) simp
  ultimately show ?thesis
    using True by (simp add: zero_pad_def digit_char_simps)
next
  case False
  have "1 \<le> length (str_nat q)"
    using str_nat_nonempty [of q] by (cases "str_nat q") auto
  then show ?thesis
    using False assms(1) by (simp add: zero_pad_def str_nat_step Suc_diff_le)
qed

lemma int_of_digits_snoc: "int_of_digits (ds @ [d]) = 10 * int_of_digits ds + digit_val d"
  by (simp add: int_of_digits_def)

lemma zero_pad_digits:
  "list_all is_digit ds \<Longrightarrow> ds \<noteq> [] \<Longrightarrow> zero_pad (length ds) (int_of_digits ds) = ds"
proof (induction ds rule: rev_induct)
  case Nil
  then show ?case by simp
next
  case (snoc d ds)
  then have d: "is_digit d" by simp
  show ?case
  proof (cases "ds = []")
    case True
    have "str_nat (digit_val d) = [digit_char (digit_val d)]"
      using digit_val_lt [OF d] by (subst str_nat.simps) simp
    then show ?thesis
      using True d by (simp add: zero_pad_def int_of_digits_def digit_char_val)
  next
    case False
    with snoc have "zero_pad (length ds) (int_of_digits ds) = ds" by simp
    moreover have "1 \<le> length ds"
      using False by (cases ds) auto
    ultimately show ?thesis
      using zero_pad_step [OF digit_val_lt [OF d], of "length ds" "int_of_digits ds"] d
      by (simp add: int_of_digits_snoc digit_char_val)
  qed
qed

section \<open>strptime on digits\<close>

lemma digit_disj:
  "is_digit c \<Longrightarrow> c = CHR ''0'' \<or> c = CHR ''1'' \<or> c = CHR ''2'' \<or> c = CHR ''3'' \<or> c = CHR ''4''
     \<or> c = CHR ''5'' \<or> c = CHR ''6'' \<or> c = CHR ''7'' \<or> c = CHR ''8'' \<or> c = CHR ''9''"
  using digit_cases [of c] by simp

lemmas field_eval = month_field_def day_field_def seqs_def times_def char_eq_def advance_def
  close_group_def char_eval int_of_digits_def

lemma month_field_ms:
  assumes "is_digit a" and "is_digit b"
  shows "ms True False (Seq (Grp 1 month_field) (Seq (Lit ''-'') R))
           \<lparr>st_prev = p, st_acc = acc, st_rest = a # b # CHR ''-'' # r, st_groups = g\<rparr>
         = (if 1 \<le> int_of_digits [a, b] \<and> int_of_digits [a, b] \<le> 12
            then ms True False R \<lparr>st_prev = Some (CHR ''-''), st_acc = CHR ''-'' # b # a # acc,
                                   st_rest = r, st_groups = (1, [a, b]) # g\<rparr>
            else [])"
  using digit_disj [OF assms(1)] digit_disj [OF assms(2)]
  apply (elim disjE)
  apply (simp_all only:)
  apply (simp_all add: field_eval)
  done


lemma day_field_ms:
  assumes "is_digit a" and "is_digit b"
  shows "ms True False (Seq (Grp 2 day_field) (Seq (Lit ''-'') R))
           \<lparr>st_prev = p, st_acc = acc, st_rest = a # b # CHR ''-'' # r, st_groups = g\<rparr>
         = (if 1 \<le> int_of_digits [a, b] \<and> int_of_digits [a, b] \<le> 31
            then ms True False R \<lparr>st_prev = Some (CHR ''-''), st_acc = CHR ''-'' # b # a # acc,
                                   st_rest = r, st_groups = (2, [a, b]) # g\<rparr>
            else [])"
  using digit_disj [OF assms(1)] digit_disj [OF assms(2)]
  apply (elim disjE)
  apply (simp_all only:)
  apply (simp_all add: field_eval)
  done

lemma year_field_ms:
  assumes "is_digit e" and "is_digit f" and "is_digit g" and "is_digit h"
  shows "ms True False (Seq (Grp 3 (times CDigit 4 4)) Eps)
           \<lparr>st_prev = p, st_acc = acc, st_rest = [e, f, g, h], st_groups = gs\<rparr>
         = [\<lparr>st_prev = Some h, st_acc = h # g # f # e # acc, st_rest = [], st_groups = (3, [e, f, g, h]) # gs\<rparr>]"
  using assms by (simp add: times_def advance_def close_group_def)

lemma valid_date_ranges:
  "valid_date y m d \<Longrightarrow> 1 \<le> m \<and> m \<le> 12 \<and> 1 \<le> d \<and> d \<le> 31"
  by (auto simp: valid_date_def days_in_month_def split: if_splits)

lemma strptime_digits:
  assumes "is_digit a" "is_digit b" "is_digit c" "is_digit d"
      and "is_digit e" "is_digit f" "is_digit g" "is_digit h"
  shows "strptime_mdy ([a, b] @ ''-'' @ [c, d] @ ''-'' @ [e, f, g, h])
         = (if valid_date (int_of_digits [e, f, g, h]) (int_of_digits [a, b]) (int_of_digits [c, d])
            then Inr (mk_date (int_of_digits [e, f, g, h]) (int_of_digits [a, b]) (int_of_digits [c, d]))
            else Inl ValueError)"
proof -
  have s: "strip [c, d] = [c, d]"
    using assms(3,4) by (simp add: strip_id digit_not_space)
  show ?thesis
    using valid_date_ranges [of "int_of_digits [e, f, g, h]" "int_of_digits [a, b]" "int_of_digits [c, d]"]
    by (simp add: strptime_mdy_def match_at_def strptime_pattern_def seqs_def [of "_ # _"] seqs_def [of "[]"]
          month_field_ms [OF assms(1,2)] day_field_ms [OF assms(3,4)]
          year_field_ms [OF assms(5-8), unfolded seqs_def] grp_def group_text_def s Let_def
        del: ms.simps One_nat_def)
qed

section \<open>The time patterns on a time text\<close>

lemma int_of_digits_zero:
  "list_all is_digit ds \<Longrightarrow> int_of_digits ds = 0 \<Longrightarrow> list_all (\<lambda>c. c = CHR ''0'') ds"
proof (induction ds rule: rev_induct)
  case Nil
  then show ?case by simp
next
  case (snoc d ds)
  then have d: "is_digit d" and ds: "list_all is_digit ds"
    by simp_all
  from snoc.prems(2) have z: "int_of_digits ds = 0" "digit_val d = 0"
    by (simp_all add: int_of_digits_snoc)
  from digit_char_val [OF d] z(2) have "d = CHR ''0''"
    by (simp add: digit_char_simps)
  with snoc.IH [OF ds z(1)] show ?case by simp
qed

lemma str_nat_digits:
  "list_all is_digit ds \<Longrightarrow> int_of_digits ds \<noteq> 0
     \<Longrightarrow> str_nat (int_of_digits ds) = dropWhile (\<lambda>c. c = CHR ''0'') ds"
proof (induction ds rule: rev_induct)
  case Nil
  then show ?case by (simp add: int_of_digits_def)
next
  case (snoc d ds)
  then have d: "is_digit d" and ds: "list_all is_digit ds"
    by simp_all
  have step: "str_nat (int_of_digits (ds @ [d]))
                = (if int_of_digits ds = 0 then [d] else str_nat (int_of_digits ds) @ [d])"
    using str_nat_step [OF digit_val_lt [OF d], of "int_of_digits ds"] digit_char_val [OF d]
    by (simp add: int_of_digits_snoc)
  show ?case
  proof (cases "int_of_digits ds = 0")
    case True
    with snoc.prems(2) have "digit_val d \<noteq> 0"
      by (simp add: int_of_digits_snoc)
    then have "d \<noteq> CHR ''0''"
      by (auto simp add: digit_val_def ord_def)
    moreover from int_of_digits_zero [OF ds True] have "\<And>x. x \<in> set ds \<Longrightarrow> x = CHR ''0''"
      by (simp add: list_all_iff)
    ultimately have "dropWhile (\<lambda>c. c = CHR ''0'') (ds @ [d]) = [d]"
      by (simp add: dropWhile_append2)
    with step True show ?thesis by simp
  next
    case False
    from snoc.IH [OF ds False] str_nat_nonempty [of "int_of_digits ds"]
    have ih: "str_nat (int_of_digits ds) = dropWhile (\<lambda>c. c = CHR ''0'') ds"
      and "dropWhile (\<lambda>c. c = CHR ''0'') ds \<noteq> []"
      by simp_all
    then obtain x where "x \<in> set ds" "x \<noteq> CHR ''0''"
      by (auto simp add: dropWhile_eq_Nil_conv)
    then have "dropWhile (\<lambda>c. c = CHR ''0'') (ds @ [d]) = dropWhile (\<lambda>c. c = CHR ''0'') ds @ [d]"
      by (simp add: dropWhile_append1)
    with step False ih show ?thesis by simp
  qed
qed

lemma standardized_date_format:
  assumes "list_all is_digit mo" "length mo = 2" "list_all is_digit dd" "length dd = 2"
      and "list_all is_digit yy" "length yy = 4"
  shows "(case strptime_mdy (mo @ ''-'' @ dd @ ''-'' @ yy) of Inl e \<Rightarrow> [] | Inr dt \<Rightarrow> strftime_dmy dt)
         = (if valid_date (int_of_digits yy) (int_of_digits mo) (int_of_digits dd)
            then dd @ ''-'' @ mo @ ''-'' @ dropWhile (\<lambda>c. c = CHR ''0'') yy else [])"
proof -
  from assms(1,2) obtain a b where mo: "mo = [a, b]" "is_digit a" "is_digit b"
    by (cases mo; cases "tl mo") auto
  from assms(3,4) obtain c d where dd: "dd = [c, d]" "is_digit c" "is_digit d"
    by (cases dd; cases "tl dd") auto
  from assms(5,6) obtain e f g h where yy: "yy = [e, f, g, h]" "is_digit e" "is_digit f" "is_digit g" "is_digit h"
    by (cases yy; cases "tl yy"; cases "tl (tl yy)"; cases "tl (tl (tl yy))") auto
  have "zero_pad (length mo) (int_of_digits mo) = mo" "zero_pad (length dd) (int_of_digits dd) = dd"
    using assms(1,3) mo(1) dd(1) by (simp_all only: zero_pad_digits list.simps not_False_eq_True)
  then have pad: "zero_pad 2 (int_of_digits mo) = mo" "zero_pad 2 (int_of_digits dd) = dd"
    by (simp_all only: assms(2,4))
  have year: "valid_date (int_of_digits yy) (int_of_digits mo) (int_of_digits dd)
                \<Longrightarrow> str_nat (int_of_digits yy) = dropWhile (\<lambda>c. c = CHR ''0'') yy"
    using str_nat_digits [OF assms(5)] by (simp add: valid_date_def)
  show ?thesis
  proof (cases "valid_date (int_of_digits yy) (int_of_digits mo) (int_of_digits dd)")
    case True
    with strptime_digits [OF mo(2,3) dd(2,3) yy(2-5)] mo(1) dd(1) yy(1)
    have "strptime_mdy (mo @ ''-'' @ dd @ ''-'' @ yy)
            = Inr (mk_date (int_of_digits yy) (int_of_digits mo) (int_of_digits dd))"
      by simp
    with True pad year [OF True] show ?thesis
      by (simp add: strftime_dmy_def mk_date_def)
  next
    case False
    with strptime_digits [OF mo(2,3) dd(2,3) yy(2-5)] mo(1) dd(1) yy(1)
    have "strptime_mdy (mo @ ''-'' @ dd @ ''-'' @ yy) = Inl ValueError"
      by simp
    with False show ?thesis by simp
  qed
qed

lemma contains_skip: "a \<notin> set u \<Longrightarrow> contains (a # w) (u @ v) = contains (a # w) v"
  by (induction u) auto

lemma am_pm_in_lower:
  assumes "list_all (\<lambda>c. is_digit c \<or> is_space c \<or> c = CHR '':'') u"
      and "ap \<in> set [''AM'', ''Am'', ''aM'', ''am'', ''PM'', ''Pm'', ''pM'', ''pm'']"
  shows "contains ''pm'' (lower (u @ ap)) = (map upper_char ap = ''PM'')"
    and "contains ''am'' (lower (u @ ap)) = (map upper_char ap = ''AM'')"
proof -
  have same: "lower u = u"
    using assms(1) by (auto simp: lower_def list_all_iff digit_lower space_lower char_eval intro!: map_idI)
  have "CHR ''p'' \<notin> set u" "CHR ''a'' \<notin> set u"
    using assms(1) by (auto simp: list_all_iff char_eval)
  then have "contains ''pm'' (lower (u @ ap)) = contains ''pm'' (lower ap)"
    and "contains ''am'' (lower (u @ ap)) = contains ''am'' (lower ap)"
    using same by (simp_all add: lower_def contains_skip)
  then show "contains ''pm'' (lower (u @ ap)) = (map upper_char ap = ''PM'')"
    and "contains ''am'' (lower (u @ ap)) = (map upper_char ap = ''AM'')"
    using assms(2) by (auto simp add: lower_def char_eval)
qed

lemma hm_search:
  assumes h: "list_all is_digit h" "length h = 1 \<or> length h = 2"
      and mi: "list_all is_digit mi" "length mi = 2"
  shows "\<exists>m. re_search False False hm_pattern (h @ '':'' @ mi @ rest) = Some m
           \<and> grp m 1 = h \<and> grp m 2 = mi"
proof -
  from mi obtain c d where mi': "mi = [c, d]" "is_digit c" "is_digit d"
    by (cases mi; cases "tl mi") auto
  from h consider a where "h = [a]" "is_digit a" | a b where "h = [a, b]" "is_digit a" "is_digit b"
    by (cases h; cases "tl h") auto
  then show ?thesis
  proof cases
    case 1
    with mi' show ?thesis
      by (auto simp add: rx_eval in_class_fun digit_not_other rep_upto_zero)
  next
    case 2
    with mi' show ?thesis
      by (auto simp add: rx_eval in_class_fun digit_not_other rep_upto_zero)
  qed
qed

lemma space_not_digit: "is_space c \<Longrightarrow> \<not> is_digit c"
  using digit_not_space by blast

lemma hour_search:
  assumes h: "list_all is_digit h" "length h = 1 \<or> length h = 2"
      and rest: "rest = [] \<or> \<not> is_digit (hd rest)"
  shows "\<exists>m. re_search False False hour_pattern (h @ rest) = Some m \<and> grp m 1 = h"
proof -
  from h consider a where "h = [a]" "is_digit a" | a b where "h = [a, b]" "is_digit a" "is_digit b"
    by (cases h; cases "tl h") auto
  then show ?thesis
  proof cases
    case 1
    with rest show ?thesis
      by (cases rest) (auto simp add: rx_eval in_class_fun rep_upto_zero)
  next
    case 2
    with rest show ?thesis
      by (cases rest) (auto simp add: rx_eval in_class_fun rep_upto_zero)
  qed
qed

lemma legacy_time_parse:
  assumes h: "list_all is_digit h" "length h = 1 \<or> length h = 2"
      and mi: "list_all is_digit mi" "length mi = 2"
      and ws: "list_all is_space ws"
      and ap: "ap \<in> set [''AM'', ''Am'', ''aM'', ''am'', ''PM'', ''Pm'', ''pM'', ''pm'']"
      and fmt: "fmt \<noteq> Some Standardized"
  shows "parse_time \<lparr>date_text = d, time_text = h @ '':'' @ mi @ ws @ ap, full_match = f, format_type = fmt\<rparr>
           = hh_mm (to_24h (map upper_char ap = ''PM'') (map upper_char ap = ''AM'') (int_of_digits h))
               (int_of_digits mi)"
proof -
  from hm_search [OF h mi, of "ws @ ap"] obtain m where
    m: "re_search False False hm_pattern (h @ '':'' @ mi @ ws @ ap) = Some m" "grp m 1 = h" "grp m 2 = mi"
    by blast
  have hm: "legacy_hours_minutes (h @ '':'' @ mi @ ws @ ap) = (int_of_digits h, int_of_digits mi)"
    using m by (simp add: legacy_hours_minutes_def)
  have "list_all (\<lambda>c. is_digit c \<or> is_space c \<or> c = CHR '':'') (h @ '':'' @ mi @ ws)"
    using h(1) mi(1) ws by (auto simp: list_all_iff)
  from am_pm_in_lower [OF this ap] hm fmt show ?thesis
    by (simp add: parse_time_def)
qed

lemma legacy_hour_parse:
  assumes h: "list_all is_digit h" "length h = 1 \<or> length h = 2"
      and ws: "list_all is_space ws"
      and ap: "ap \<in> set [''AM'', ''Am'', ''aM'', ''am'', ''PM'', ''Pm'', ''pM'', ''pm'']"
      and fmt: "fmt \<noteq> Some Standardized"
  shows "parse_time \<lparr>date_text = d, time_text = h @ ws @ ap, full_match = f, format_type = fmt\<rparr>
           = hh_mm (to_24h (map upper_char ap = ''PM'') (map upper_char ap = ''AM'') (int_of_digits h)) 0"
proof -
  have "ws @ ap = [] \<or> \<not> is_digit (hd (ws @ ap))"
    using ws ap by (cases ws) (auto simp add: space_not_digit char_eval)
  from hour_search [OF h this] obtain m where
    m: "re_search False False hour_pattern (h @ ws @ ap) = Some m" "grp m 1 = h"
    by blast
  have nosep: "CHR '':'' \<notin> set (h @ ws @ ap)" "CHR ''.'' \<notin> set (h @ ws @ ap)"
    using h(1) ws ap by (auto simp add: list_all_iff char_eval)
  have hm: "legacy_hours_minutes (h @ ws @ ap) = (int_of_digits h, 0)"
    using m nosep by (simp add: legacy_hours_minutes_def hour_only_def)
  have "list_all (\<lambda>c. is_digit c \<or> is_space c \<or> c = CHR '':'') (h @ ws)"
    using h(1) ws by (auto simp: list_all_iff)
  from am_pm_in_lower [OF this ap] hm fmt show ?thesis
    by (simp add: parse_time_def)
qed


section \<open>The standardized stage\<close>

lemma standardized_slot_found:
  assumes "re_search True False standardized_pattern content = Some m"
  shows "find_slot content = Some \<lparr>date_text = grp m 1, time_text = grp m 2, full_match = m_group0 m,
                                     format_type = Some Standardized\<rparr>"
proof -
  from standardized_date_shape [OF assms] obtain mo dd yy where
    "grp m 1 = mo @ ''-'' @ dd @ ''-'' @ yy" "list_all is_digit mo" "length mo = 2"
    "list_all is_digit yy" "length yy = 4"
    by blast
  then have sD: "strip (grp m 1) = grp m 1"
    using std_date_strip by simp
  from standardized_time_shape [OF assms] obtain h mi ws ap where
    "grp m 2 = h @ '':'' @ mi @ ws @ ap" "list_all is_digit h" "length h = 1 \<or> length h = 2"
    "ap \<in> set [''AM'', ''Am'', ''aM'', ''am'', ''PM'', ''Pm'', ''pM'', ''pm'']"
    by blast
  then have sT: "strip (grp m 2) = grp m 2"
    using std_time_strip by simp
  show ?thesis
    using assms sD sT by (simp add: find_slot_def standardized_slot_def)
qed

lemma to_24h_table:
  assumes "map upper_char ap = ''AM'' \<or> map upper_char ap = ''PM''"
  shows "to_24h (map upper_char ap = ''PM'') (map upper_char ap = ''AM'') hours
         = (if map upper_char ap = ''PM'' then (if hours = 12 then 12 else hours + 12)
            else (if hours = 12 then 0 else hours))"
  using assms by (auto simp add: to_24h_def)

text \<open>
  Claim C1, as the code has it. When the transcript has a match of the standardized
  pattern, the leftmost one decides, whatever else the transcript holds. Its date D is two
  digits, two digits and four digits between dashes, its time T is one or two digits, a
  colon, two digits, optional white space and AM or PM in any case. The raw texts are D
  and T. When the fields of D are a date of the calendar, the formatted date is the day,
  the month and the year of D in this order, the year without its leading zeros, so that
  a year from 1000 on keeps its four digits; otherwise the formatted date is empty. The
  formatted time has the minutes of T and its hour, plus 12 for PM unless the hour is 12,
  and 0 for 12 AM.
\<close>

theorem standardized_first_match:
  assumes "re_search True False standardized_pattern content = Some m"
  shows "\<exists>mo dd yy h mi ws ap.
           grp m 1 = mo @ ''-'' @ dd @ ''-'' @ yy
         \<and> list_all is_digit mo \<and> length mo = 2 \<and> list_all is_digit dd \<and> length dd = 2
         \<and> list_all is_digit yy \<and> length yy = 4
         \<and> grp m 2 = h @ '':'' @ mi @ ws @ ap
         \<and> list_all is_digit h \<and> (length h = 1 \<or> length h = 2)
         \<and> list_all is_digit mi \<and> length mi = 2 \<and> list_all is_space ws
         \<and> (map upper_char ap = ''AM'' \<or> map upper_char ap = ''PM'')
         \<and> raw_date_text (extract_content parse now content) = grp m 1
         \<and> raw_time_text (extract_content parse now content) = grp m 2
         \<and> full_text (extract_content parse now content) = m_group0 m
         \<and> formatted_date (extract_content parse now content)
             = (if valid_date (int_of_digits yy) (int_of_digits mo) (int_of_digits dd)
                then dd @ ''-'' @ mo @ ''-'' @ dropWhile (\<lambda>c. c = CHR ''0'') yy else [])
         \<and> formatted_time (extract_content parse now content)
             = hh_mm (if map upper_char ap = ''PM''
                      then (if int_of_digits h = 12 then 12 else int_of_digits h + 12)
                      else (if int_of_digits h = 12 then 0 else int_of_digits h))
                 (int_of_digits mi)"
proof -
  from standardized_date_shape [OF assms] obtain mo dd yy where
    D: "grp m 1 = mo @ ''-'' @ dd @ ''-'' @ yy" "list_all is_digit mo" "length mo = 2"
       "list_all is_digit dd" "length dd = 2" "list_all is_digit yy" "length yy = 4"
    by blast
  from standardized_time_shape [OF assms] obtain h mi ws ap where
    T: "grp m 2 = h @ '':'' @ mi @ ws @ ap" "list_all is_digit h" "length h = 1 \<or> length h = 2"
       "list_all is_digit mi" "length mi = 2" "list_all is_space ws"
       "ap \<in> set [''AM'', ''Am'', ''aM'', ''am'', ''PM'', ''Pm'', ''pM'', ''pm'']"
    by blast
  let ?cs = "\<lparr>date_text = grp m 1, time_text = grp m 2, full_match = m_group0 m,
              format_type = Some Standardized\<rparr>"
  let ?r = "extract_content parse now content"
  have r: "?r = slot_result parse now ?cs"
    using standardized_slot_found [OF assms] by (simp add: extract_content_def)
  have ap: "map upper_char ap = ''AM'' \<or> map upper_char ap = ''PM''"
    using T(7) by (auto simp add: char_eval)
  have "list_all (\<lambda>c. is_digit c \<or> c = CHR ''-'') (grp m 1)"
    using D by (auto simp: list_all_iff)
  then have "\<not> contains ''tomorrow'' (lower (grp m 1))" "\<not> contains ''today'' (lower (grp m 1))"
    by (rule digits_not_relative)+
  then have "parse_date parse now ?cs = then_format (strptime_mdy (grp m 1))"
    by (simp add: parse_date_def)
  then have "formatted_date ?r = (case strptime_mdy (grp m 1) of Inl e \<Rightarrow> [] | Inr dt \<Rightarrow> strftime_dmy dt)"
    using r by (simp add: slot_result_def then_format_def split: sum.splits)
  then have fd: "formatted_date ?r
             = (if valid_date (int_of_digits yy) (int_of_digits mo) (int_of_digits dd)
                then dd @ ''-'' @ mo @ ''-'' @ dropWhile (\<lambda>c. c = CHR ''0'') yy else [])"
    using standardized_date_format [OF D(2-7)] D(1) by simp
  have "parse_time ?cs
      = hh_mm (to_24h (map upper_char ap = ''PM'') (map upper_char ap = ''AM'') (int_of_digits h)) (int_of_digits mi)"
    using std_time_parse [OF T(2-7)] T(1) by simp
  then have ft: "formatted_time ?r
             = hh_mm (if map upper_char ap = ''PM''
                      then (if int_of_digits h = 12 then 12 else int_of_digits h + 12)
                      else (if int_of_digits h = 12 then 0 else int_of_digits h))
                 (int_of_digits mi)"
    using r to_24h_table [OF ap] by (simp add: slot_result_def)
  have raw: "raw_date_text ?r = grp m 1" "raw_time_text ?r = grp m 2" "full_text ?r = m_group0 m"
    using r by (simp_all add: slot_result_def)
  show ?thesis
    using D T(1-6) ap raw fd ft
    by (intro exI [of _ mo] exI [of _ dd] exI [of _ yy] exI [of _ h] exI [of _ mi] exI [of _ ws]
          exI [of _ ap] conjI)
qed

lemma example_match:
  "re_search True False standardized_pattern ''Let me confirm the interview on 06-29-2025 at 04:30 PM''
     = Some \<lparr>m_group0 = ''confirm the interview on 06-29-2025 at 04:30 PM'',
              m_groups = [(2, ''04:30 PM''), (1, ''06-29-2025'')],
              m_prev = Some (CHR ''M''), m_rest = []\<rparr>"
  by (simp add: rx_eval)

lemma two_list: "length xs = 2 \<Longrightarrow> \<exists>a b. xs = [a, b]"
  by (cases xs; cases "tl xs") auto

lemma one_or_two: "length xs = 1 \<or> length xs = 2 \<Longrightarrow> (\<exists>a. xs = [a]) \<or> (\<exists>a b. xs = [a, b])"
  by (cases xs; cases "tl xs") auto

lemma am_pm_two: "map upper_char ap = ''AM'' \<or> map upper_char ap = ''PM'' \<Longrightarrow> \<exists>x y. ap = [x, y]"
  by (cases ap; cases "tl ap") auto

theorem standardized_first_match_witness:
  "re_search True False standardized_pattern ''Let me confirm the interview on 06-29-2025 at 04:30 PM''
     = Some \<lparr>m_group0 = ''confirm the interview on 06-29-2025 at 04:30 PM'',
              m_groups = [(2, ''04:30 PM''), (1, ''06-29-2025'')],
              m_prev = Some (CHR ''M''), m_rest = []\<rparr>
   \<and> raw_date_text (extract_content dateutil_parse (mk_date 2025 10 1)
         ''Let me confirm the interview on 06-29-2025 at 04:30 PM'') = ''06-29-2025''
   \<and> raw_time_text (extract_content dateutil_parse (mk_date 2025 10 1)
         ''Let me confirm the interview on 06-29-2025 at 04:30 PM'') = ''04:30 PM''
   \<and> formatted_date (extract_content dateutil_parse (mk_date 2025 10 1)
         ''Let me confirm the interview on 06-29-2025 at 04:30 PM'') = ''29-06-2025''
   \<and> formatted_time (extract_content dateutil_parse (mk_date 2025 10 1)
         ''Let me confirm the interview on 06-29-2025 at 04:30 PM'') = ''16:30''"
proof -
  let ?c = "''Let me confirm the interview on 06-29-2025 at 04:30 PM''"
  let ?m = "\<lparr>m_group0 = ''confirm the interview on 06-29-2025 at 04:30 PM'',
              m_groups = [(2, ''04:30 PM''), (1, ''06-29-2025'')],
              m_prev = Some (CHR ''M''), m_rest = []\<rparr>"
  let ?r = "extract_content dateutil_parse (mk_date 2025 10 1) ?c"
  have g: "grp ?m 1 = ''06-29-2025''" "grp ?m 2 = ''04:30 PM''"
    by (simp_all add: grp_def group_text_def)
  from standardized_first_match [OF example_match, of dateutil_parse "mk_date 2025 10 1"]
  obtain mo dd yy h mi ws ap where all:
      "''06-29-2025'' = mo @ ''-'' @ dd @ ''-'' @ yy
         \<and> list_all is_digit mo \<and> length mo = 2 \<and> list_all is_digit dd \<and> length dd = 2
         \<and> list_all is_digit yy \<and> length yy = 4
         \<and> ''04:30 PM'' = h @ '':'' @ mi @ ws @ ap
         \<and> list_all is_digit h \<and> (length h = 1 \<or> length h = 2)
         \<and> list_all is_digit mi \<and> length mi = 2 \<and> list_all is_space ws
         \<and> (map upper_char ap = ''AM'' \<or> map upper_char ap = ''PM'')
         \<and> raw_date_text ?r = ''06-29-2025''
         \<and> raw_time_text ?r = ''04:30 PM''
         \<and> full_text ?r = m_group0 ?m
         \<and> formatted_date ?r
             = (if valid_date (int_of_digits yy) (int_of_digits mo) (int_of_digits dd)
                then dd @ ''-'' @ mo @ ''-'' @ dropWhile (\<lambda>c. c = CHR ''0'') yy else [])
         \<and> formatted_time ?r
             = hh_mm (if map upper_char ap = ''PM''
                      then (if int_of_digits h = 12 then 12 else int_of_digits h + 12)
                      else (if int_of_digits h = 12 then 0 else int_of_digits h))
                 (int_of_digits mi)"
    unfolding g
    apply (elim exE)
    apply (rule that)
    apply assumption
    done
  then have D: "''06-29-2025'' = mo @ ''-'' @ dd @ ''-'' @ yy" "length mo = 2" "length dd = 2" "length yy = 4"
    and T: "''04:30 PM'' = h @ '':'' @ mi @ ws @ ap" "list_all is_digit h" "length h = 1 \<or> length h = 2"
      "length mi = 2" "map upper_char ap = ''AM'' \<or> map upper_char ap = ''PM''"
    and raw: "raw_date_text ?r = ''06-29-2025''" "raw_time_text ?r = ''04:30 PM''"
    and fd: "formatted_date ?r
             = (if valid_date (int_of_digits yy) (int_of_digits mo) (int_of_digits dd)
                then dd @ ''-'' @ mo @ ''-'' @ dropWhile (\<lambda>c. c = CHR ''0'') yy else [])"
    and ft: "formatted_time ?r
             = hh_mm (if map upper_char ap = ''PM''
                      then (if int_of_digits h = 12 then 12 else int_of_digits h + 12)
                      else (if int_of_digits h = 12 then 0 else int_of_digits h))
                 (int_of_digits mi)"
    by - (elim conjE, assumption)+
  from two_list [OF D(2)] two_list [OF D(3)] D(1)
  have d: "mo = ''06''" "dd = ''29''" "yy = ''2025''"
    by auto
  from one_or_two [OF T(3)] two_list [OF T(4)] am_pm_two [OF T(5)] T(1)
  have t: "h = ''04'' \<and> mi = ''30'' \<and> ap = ''PM''"
    by (auto simp add: Cons_eq_append_conv)
  have "formatted_date ?r = ''29-06-2025''"
    unfolding fd d by (simp add: date_eval char_eval)
  moreover have "formatted_time ?r = ''16:30''"
    unfolding ft using t by (simp add: hh_mm_def date_eval char_eval)
  ultimately show ?thesis
    using example_match raw by simp
qed

theorem standardized_any_phrase_counterexample:
  "formatted_date (extract_content dateutil_parse (mk_date 2025 10 1)
      (''confirm interview on 06-28-2025 at 03:00 PM'' @ newline @
       ''confirm interview on 06-29-2025 at 04:30 PM'')) = ''28-06-2025''
   \<and> formatted_time (extract_content dateutil_parse (mk_date 2025 10 1)
      (''confirm interview on 06-28-2025 at 03:00 PM'' @ newline @
       ''confirm interview on 06-29-2025 at 04:30 PM'')) = ''15:00''
   \<and> raw_date_text (extract_content dateutil_parse (mk_date 2025 10 1)
      ''confirm interview on 13-45-2025 at 13:30 PM'') = ''13-45-2025''
   \<and> formatted_date (extract_content dateutil_parse (mk_date 2025 10 1)
      ''confirm interview on 13-45-2025 at 13:30 PM'') = []
   \<and> formatted_time (extract_content dateutil_parse (mk_date 2025 10 1)
      ''confirm interview on 13-45-2025 at 13:30 PM'') = ''25:30''
   \<and> formatted_date (extract_content dateutil_parse (mk_date 2025 10 1)
      ''confirm interview on 01-01-0999 at 01:00 PM'') = ''01-01-999''"
  by (simp add: extract_eval newline_def)

section \<open>Time normalization\<close>

text \<open>
  Claim C6. A time text made of an hour of one or two digits, a colon, two digits of
  minutes, optional white space and AM or PM in any case is normalized alike by the
  standardized and the legacy branch: the minutes are kept, 12 AM gives hour 0, 12 PM
  gives hour 12, and every other PM hour is increased by 12. In the legacy branch an hour
  without minutes is normalized the same way with minutes 00.
\<close>

theorem time_normalization:
  assumes "list_all is_digit h" and "length h = 1 \<or> length h = 2"
      and "list_all is_digit mi" and "length mi = 2"
      and "list_all is_space ws"
      and "map upper_char ap = ''AM'' \<or> map upper_char ap = ''PM''"
  shows "parse_time \<lparr>date_text = d, time_text = h @ '':'' @ mi @ ws @ ap, full_match = f, format_type = fmt\<rparr>
           = hh_mm (if map upper_char ap = ''PM''
                    then (if int_of_digits h = 12 then 12 else int_of_digits h + 12)
                    else (if int_of_digits h = 12 then 0 else int_of_digits h))
               (int_of_digits mi)
       \<and> (fmt \<noteq> Some Standardized \<longrightarrow>
           parse_time \<lparr>date_text = d, time_text = h @ ws @ ap, full_match = f, format_type = fmt\<rparr>
             = hh_mm (if map upper_char ap = ''PM''
                      then (if int_of_digits h = 12 then 12 else int_of_digits h + 12)
                      else (if int_of_digits h = 12 then 0 else int_of_digits h))
                 0)"
proof -
  note ap = am_pm_cases [OF assms(6)]
  have "parse_time \<lparr>date_text = d, time_text = h @ '':'' @ mi @ ws @ ap, full_match = f, format_type = fmt\<rparr>
           = hh_mm (to_24h (map upper_char ap = ''PM'') (map upper_char ap = ''AM'') (int_of_digits h))
               (int_of_digits mi)"
  proof (cases "fmt = Some Standardized")
    case True
    then show ?thesis
      using std_time_parse [OF assms(1-5) ap] by simp
  next
    case False
    then show ?thesis
      by (rule legacy_time_parse [OF assms(1-5) ap])
  qed
  moreover have "fmt \<noteq> Some Standardized \<Longrightarrow>
      parse_time \<lparr>date_text = d, time_text = h @ ws @ ap, full_match = f, format_type = fmt\<rparr>
        = hh_mm (to_24h (map upper_char ap = ''PM'') (map upper_char ap = ''AM'') (int_of_digits h)) 0"
    by (rule legacy_hour_parse [OF assms(1,2,5) ap])
  ultimately show ?thesis
    by (simp add: to_24h_table [OF assms(6)])
qed

lemma table_hyps:
  "list_all is_digit ''12''" "length ''12'' = 1 \<or> length ''12'' = 2"
  "list_all is_digit ''4''" "length ''4'' = 1 \<or> length ''4'' = 2"
  "list_all is_digit ''00''" "length ''00'' = 2" "list_all is_space '' ''"
  "map upper_char ''AM'' = ''AM'' \<or> map upper_char ''AM'' = ''PM''"
  "map upper_char ''PM'' = ''AM'' \<or> map upper_char ''PM'' = ''PM''"
  by (simp_all add: char_eval)

lemma table_values:
  "hh_mm 0 (int_of_digits ''00'') = ''00:00''" "hh_mm 12 (int_of_digits ''00'') = ''12:00''"
  "int_of_digits ''12'' = 12" "int_of_digits ''4'' = 4" "hh_mm 16 0 = ''16:00''"
  "map upper_char ''AM'' = ''AM''" "map upper_char ''PM'' = ''PM''"
  by (simp_all add: hh_mm_def date_eval char_eval)

theorem time_normalization_witness:
  "list_all is_digit ''12'' \<and> list_all is_digit ''00'' \<and> list_all is_space '' ''
   \<and> parse_time \<lparr>date_text = [], time_text = ''12:00 AM'', full_match = [], format_type = Some Standardized\<rparr>
       = ''00:00''
   \<and> parse_time \<lparr>date_text = [], time_text = ''12:00 AM'', full_match = [], format_type = Some Legacy\<rparr>
       = ''00:00''
   \<and> parse_time \<lparr>date_text = [], time_text = ''12:00 PM'', full_match = [], format_type = Some Standardized\<rparr>
       = ''12:00''
   \<and> parse_time \<lparr>date_text = [], time_text = ''12:00 PM'', full_match = [], format_type = Some Legacy\<rparr>
       = ''12:00''
   \<and> parse_time \<lparr>date_text = [], time_text = ''4 PM'', full_match = [], format_type = Some Legacy\<rparr>
       = ''16:00''"
proof -
  note am = time_normalization [OF table_hyps(1,2,5,6,7,8), of "[]" "[]"]
  note pm = time_normalization [OF table_hyps(1,2,5,6,7,9), of "[]" "[]"]
  note four = time_normalization [OF table_hyps(3,4,5,6,7,9), of "[]" "[]" "Some Legacy"]
  from am [of "Some Standardized"] am [of "Some Legacy"] pm [of "Some Standardized"] pm [of "Some Legacy"]
       four table_hyps(1,5,7)
  show ?thesis
    by (simp add: table_values char_eval)
qed
section \<open>Closing a transcript\<close>

lemma close_unknown:
  "transcript_file_handles st sid = None \<Longrightarrow> close_transcript_file now sid st = st"
  by (simp add: close_transcript_file_def)

lemma close_failed_write:
  assumes "transcript_file_handles st sid = Some filename"
      and "file_write filename (footer now1) st = Inl e"
  shows "close_transcript_file now sid st = st"
  using assms
  by (auto simp add: close_transcript_file_def file_write_def split: option.splits if_splits)

lemma close_removes_handle:
  assumes "transcript_file_handles st sid = Some filename"
      and "file_write filename (footer now) st = Inr st1"
  shows "transcript_file_handles (close_transcript_file now sid st) sid = None"
  using assms by (simp add: close_transcript_file_def Let_def file_close_def split: option.splits)

lemma close_twice:
  "close_transcript_file now2 sid (close_transcript_file now1 sid st) = close_transcript_file now1 sid st"
proof (cases "transcript_file_handles st sid")
  case None
  then show ?thesis by (simp add: close_unknown)
next
  case (Some filename)
  show ?thesis
  proof (cases "file_write filename (footer now1) st")
    case (Inl e)
    from Some Inl have "close_transcript_file now1 sid st = st"
      and "close_transcript_file now2 sid st = st"
      by (rule close_failed_write)+
    then show ?thesis by simp
  next
    case (Inr st1)
    with Some have "transcript_file_handles (close_transcript_file now1 sid st) sid = None"
      by (rule close_removes_handle)
    then show ?thesis by (rule close_unknown)
  qed
qed

lemma close_effect:
  assumes "transcript_file_handles st sid = Some filename"
      and "files st filename = Some f" and "\<not> tf_closed f"
  shows "transcript_file_handles (close_transcript_file now sid st) sid = None"
    and "conversation_transcripts (close_transcript_file now sid st) sid = None"
    and "files (close_transcript_file now sid st) filename =
           Some \<lparr>tf_chunks = tf_chunks f @ [footer now], tf_closed = True\<rparr>"
  using assms by (simp_all add: close_transcript_file_def file_write_def file_close_def Let_def)

text \<open>
  Claim C5. close_transcript_file can be invoked any number of times with the same stream
  id. The first invocation on a registered stream whose file is open appends the footer,
  closes the file and removes the stream from both dictionaries; whatever the clock
  readings of the later invocations, each of them returns the state unchanged. The
  function returns a state in every case: what its file operations raise is caught inside.
\<close>

theorem close_transcript_file_idempotent:
  "foldl (\<lambda>s n. close_transcript_file n sid s) (close_transcript_file now sid st) nows
     = close_transcript_file now sid st
   \<and> (\<forall>filename f. transcript_file_handles st sid = Some filename \<and> files st filename = Some f \<and> \<not> tf_closed f
        \<longrightarrow> transcript_file_handles (close_transcript_file now sid st) sid = None
          \<and> conversation_transcripts (close_transcript_file now sid st) sid = None
          \<and> files (close_transcript_file now sid st) filename =
              Some \<lparr>tf_chunks = tf_chunks f @ [footer now], tf_closed = True\<rparr>)"
proof
  show "foldl (\<lambda>s n. close_transcript_file n sid s) (close_transcript_file now sid st) nows
          = close_transcript_file now sid st"
    by (induction nows) (simp_all add: close_twice)
next
  show "\<forall>filename f. transcript_file_handles st sid = Some filename \<and> files st filename = Some f \<and> \<not> tf_closed f
        \<longrightarrow> transcript_file_handles (close_transcript_file now sid st) sid = None
          \<and> conversation_transcripts (close_transcript_file now sid st) sid = None
          \<and> files (close_transcript_file now sid st) filename =
              Some \<lparr>tf_chunks = tf_chunks f @ [footer now], tf_closed = True\<rparr>"
    using close_effect by blast
qed

theorem close_transcript_file_idempotent_witness:
  "transcript_file_handles
      (snd (receive_from_twilio (mk_date 2025 10 1) (Start ''MZ1'' ''CA1'') (None, initial_state))) ''MZ1''
     = Some ''call-transcripts/call_CA1_20251001_000000.txt''
   \<and> transcript_file_handles
        (close_transcript_file (mk_date 2025 10 1) ''MZ1''
          (snd (receive_from_twilio (mk_date 2025 10 1) (Start ''MZ1'' ''CA1'') (None, initial_state)))) ''MZ1''
       = None
   \<and> close_transcript_file (mk_date 2025 10 2) ''MZ1''
        (close_transcript_file (mk_date 2025 10 1) ''MZ1''
          (snd (receive_from_twilio (mk_date 2025 10 1) (Start ''MZ1'' ''CA1'') (None, initial_state))))
       = close_transcript_file (mk_date 2025 10 1) ''MZ1''
          (snd (receive_from_twilio (mk_date 2025 10 1) (Start ''MZ1'' ''CA1'') (None, initial_state)))"
proof -
  let ?st = "snd (receive_from_twilio (mk_date 2025 10 1) (Start ''MZ1'' ''CA1'') (None, initial_state))"
  let ?fn = "''call-transcripts/call_CA1_20251001_000000.txt''"
  have h: "transcript_file_handles ?st ''MZ1'' = Some ?fn"
    by (simp add: relay_eval)
  have f: "\<exists>f. files ?st ?fn = Some f \<and> \<not> tf_closed f"
    by (simp add: relay_eval)
  from close_transcript_file_idempotent
         [where sid = "''MZ1''" and now = "mk_date 2025 10 1" and st = ?st and nows = "[mk_date 2025 10 2]"]
  have "close_transcript_file (mk_date 2025 10 2) ''MZ1'' (close_transcript_file (mk_date 2025 10 1) ''MZ1'' ?st)
          = close_transcript_file (mk_date 2025 10 1) ''MZ1'' ?st"
    and "transcript_file_handles (close_transcript_file (mk_date 2025 10 1) ''MZ1'' ?st) ''MZ1'' = None"
    using h f by auto
  with h show ?thesis by simp
qed

section \<open>The relay on a trace\<close>

text \<open>
  Claim C4. The number of lines written to the transcript equals the number of finalized
  utterances, and no text is written twice. The relay does not keep this: after a start
  event, two assistant responses in a row (delta Hello, done, delta again, done) leave one
  message in the session, Hello again, and two lines in the file, Hello and Hello again.
\<close>

theorem assistant_text_written_twice:
  "map_option (map msg_text \<circ> messages)
     (conversation_transcripts
        (run_openai
           [(mk_date 2025 10 1, AudioTranscriptDelta ''Hello''), (mk_date 2025 10 1, AudioTranscriptDone),
            (mk_date 2025 10 1, AudioTranscriptDelta '' again''), (mk_date 2025 10 1, AudioTranscriptDone)]
           (Some ''MZ1'')
           (snd (receive_from_twilio (mk_date 2025 10 1) (Start ''MZ1'' ''CA1'') (None, initial_state))))
        ''MZ1'')
     = Some [''Hello again'']
   \<and> map_option (tl \<circ> tf_chunks)
     (files
        (run_openai
           [(mk_date 2025 10 1, AudioTranscriptDelta ''Hello''), (mk_date 2025 10 1, AudioTranscriptDone),
            (mk_date 2025 10 1, AudioTranscriptDelta '' again''), (mk_date 2025 10 1, AudioTranscriptDone)]
           (Some ''MZ1'')
           (snd (receive_from_twilio (mk_date 2025 10 1) (Start ''MZ1'' ''CA1'') (None, initial_state))))
        ''call-transcripts/call_CA1_20251001_000000.txt'')
     = Some [transcript_line (mk_date 2025 10 1) ai_speaker ''Hello'',
             transcript_line (mk_date 2025 10 1) ai_speaker ''Hello again'']"
  by (simp add: relay_eval)

section \<open>The extractor on transcripts\<close>

text \<open>
  Claim C8. The legacy time normalization does not check the hour. On the transcript
  below the legacy stage matches, the last time-like text is 13 PM, and the formatted time
  is 25:00, for every date parser and clock; the rule behind it adds 12 to every hour
  other than 12 when the text holds pm, with no check of the range.
\<close>

theorem legacy_hour_unchecked:
  "raw_time_text (extract_content parse now ''scheduled for May 5, 2041 at 13 PM'') = ''13 PM''
   \<and> formatted_time (extract_content parse now ''scheduled for May 5, 2041 at 13 PM'') = ''25:00''
   \<and> to_24h True am hours = (if hours = 12 then (if am then 0 else 12) else hours + 12)"
  by (simp add: extract_eval)

text \<open>
  Claim C9. The unanchored stage collects the date candidates grammar by grammar, and its
  third grammar takes any alphabetic word followed by one or two digits. On the transcript
  below, which has no confirmation keyword, the candidates are the whole phrase and then
  of 20, cut out of the year, and of 20 becomes the raw date text.
\<close>

theorem unanchored_last_candidate_not_a_date:
  "map (\<lambda>pattern. re_findall True False pattern ''15th of June of 2041, 3 PM'') date_patterns
     = [[], [''15th of June of 2041''], [''of 20'']]
   \<and> raw_date_text (extract_content parse now ''15th of June of 2041, 3 PM'') = ''of 20''
   \<and> raw_time_text (extract_content parse now ''15th of June of 2041, 3 PM'') = ''3 PM''"
  by (simp add: extract_eval)

section \<open>Missing files\<close>

lemma collect_results_append:
  "collect_results fs parse now (xs @ ys) = collect_results fs parse now xs @ collect_results fs parse now ys"
  by (simp add: collect_results_def)

lemma collect_results_unreadable:
  "fs_read fs (''call-transcripts/'' @ f) = Inl e \<Longrightarrow> collect_results fs parse now [f] = []"
  by (simp add: collect_results_def extract_interview_slot_def)

text \<open>
  Claim C10. When the transcript file does not exist, extract_interview_slot returns None,
  not a result with empty fields, and process_all_transcripts leaves the file out: its
  result is the list of the results of the other files of the directory.
\<close>

theorem missing_file_is_omitted:
  assumes "fs_read fs (''call-transcripts/'' @ f) = Inl FileNotFoundError"
      and "fs_exists fs ''call-transcripts''"
      and "filter (ends_with ''.txt'') (fs_listdir fs ''call-transcripts'') = before @ f # after"
  shows "extract_interview_slot (fs_read fs) parse now (''call-transcripts/'' @ f) = None
       \<and> extract_interview_slot (fs_read fs) parse now (''call-transcripts/'' @ f) \<noteq> Some empty_result
       \<and> process_all_transcripts fs parse now = Some (collect_results fs parse now (before @ after))"
proof -
  have none: "extract_interview_slot (fs_read fs) parse now (''call-transcripts/'' @ f) = None"
    using assms(1) by (simp add: extract_interview_slot_def)
  have "collect_results fs parse now (before @ f # after)
          = collect_results fs parse now before @ collect_results fs parse now [f] @ collect_results fs parse now after"
    using collect_results_append [of fs parse now before "[f] @ after"]
          collect_results_append [of fs parse now "[f]" after]
    by simp
  then have "collect_results fs parse now (before @ f # after) = collect_results fs parse now (before @ after)"
    using assms(1) by (simp add: collect_results_unreadable collect_results_append)
  then have "process_all_transcripts fs parse now = Some (collect_results fs parse now (before @ after))"
    using assms(2,3) by (simp add: process_all_transcripts_def)
  with none show ?thesis by simp
qed

theorem missing_file_is_omitted_witness:
  "fs_read \<lparr>fs_exists = (\<lambda>d. True), fs_listdir = (\<lambda>d. [''a.txt'', ''b.txt'']),
            fs_read = (\<lambda>p. if p = ''call-transcripts/b.txt'' then Inr ''no slot here'' else Inl FileNotFoundError)\<rparr>
     (''call-transcripts/'' @ ''a.txt'') = Inl FileNotFoundError
   \<and> extract_interview_slot
       (\<lambda>p. if p = ''call-transcripts/b.txt'' then Inr ''no slot here'' else Inl FileNotFoundError)
       dateutil_parse (mk_date 2025 10 1) ''call-transcripts/a.txt'' = None
   \<and> process_all_transcripts
       \<lparr>fs_exists = (\<lambda>d. True), fs_listdir = (\<lambda>d. [''a.txt'', ''b.txt'']),
        fs_read = (\<lambda>p. if p = ''call-transcripts/b.txt'' then Inr ''no slot here'' else Inl FileNotFoundError)\<rparr>
       dateutil_parse (mk_date 2025 10 1) = Some [empty_result]"
proof -
  let ?fs = "\<lparr>fs_exists = (\<lambda>d. True), fs_listdir = (\<lambda>d. [''a.txt'', ''b.txt'']),
            fs_read = (\<lambda>p. if p = ''call-transcripts/b.txt'' then Inr ''no slot here'' else Inl FileNotFoundError)\<rparr>"
  have h1: "fs_read ?fs (''call-transcripts/'' @ ''a.txt'') = Inl FileNotFoundError"
    by simp
  have h2: "fs_exists ?fs ''call-transcripts''"
    by simp
  have h3: "filter (ends_with ''.txt'') (fs_listdir ?fs ''call-transcripts'') = [] @ ''a.txt'' # [''b.txt'']"
    by (simp add: ends_with_def)
  have b: "collect_results ?fs dateutil_parse (mk_date 2025 10 1) ([] @ [''b.txt'']) = [empty_result]"
    by (simp add: collect_results_def extract_interview_slot_def extract_eval)
  from missing_file_is_omitted [OF h1 h2 h3, of dateutil_parse "mk_date 2025 10 1"] b h1
  show ?thesis by simp
qed

section \<open>Parse failures stay local\<close>

lemma hh_mm_nonempty: "hh_mm h m \<noteq> []"
  by (simp add: hh_mm_def)

lemma legacy_date_format: "legacy_date ps content = Some cs \<Longrightarrow> format_type cs = Some Legacy"
  by (induction ps) (auto split: list.splits)

lemma found_slot_time:
  assumes "find_slot content = Some cs"
  shows "parse_time cs \<noteq> []"
proof (cases "re_search True False standardized_pattern content")
  case (Some m)
  from standardized_slot_found [OF Some] assms
  have cs: "cs = \<lparr>date_text = grp m 1, time_text = grp m 2, full_match = m_group0 m,
                   format_type = Some Standardized\<rparr>"
    by simp
  from standardized_time_shape [OF Some] obtain h mi ws ap where
    T: "grp m 2 = h @ '':'' @ mi @ ws @ ap" "list_all is_digit h" "length h = 1 \<or> length h = 2"
       "list_all is_digit mi" "length mi = 2" "list_all is_space ws"
       "ap \<in> set [''AM'', ''Am'', ''aM'', ''am'', ''PM'', ''Pm'', ''pM'', ''pm'']"
    by blast
  show ?thesis
    unfolding cs T(1) std_time_parse [OF T(2-7)] by (rule hh_mm_nonempty)
next
  case None
  then have "format_type cs \<noteq> Some Standardized"
    using assms legacy_date_format [of legacy_patterns content]
    by (auto simp add: find_slot_def standardized_slot_def legacy_slot_def unanchored_slot_def Let_def
          split: option.splits if_splits)
  then show ?thesis
    by (simp add: parse_time_def hh_mm_nonempty split: prod.splits)
qed

lemma empty_time_text:
  assumes "find_slot content = Some cs" and "time_text cs = []"
  shows "parse_time cs = ''00:00''"
proof (cases "re_search True False standardized_pattern content")
  case (Some m)
  from standardized_slot_found [OF Some] assms(1)
  have "time_text cs = grp m 2"
    by auto
  moreover from standardized_time_shape [OF Some] have "grp m 2 \<noteq> []"
    by auto
  ultimately show ?thesis
    using assms(2) by simp
next
  case None
  then have "format_type cs \<noteq> Some Standardized"
    using assms(1) legacy_date_format [of legacy_patterns content]
    by (auto simp add: find_slot_def standardized_slot_def legacy_slot_def unanchored_slot_def Let_def
          split: option.splits if_splits)
  then show ?thesis
    using assms(2) by (simp add: extract_eval)
qed

text \<open>
  Claim C7, as the code has it. When a slot is found the function returns a result that
  keeps both raw texts, whatever the date parser does. A date that fails to parse leaves
  the formatted date empty and does not touch the formatted time, which is the one that
  the time text gives; a date that parses is the formatted date. The time stage never
  fails and never leaves its field empty: a slot with an empty time text, which the
  legacy stage builds when the transcript has no time, has the formatted time 00:00.
\<close>

theorem parse_failure_is_local:
  assumes "read_file path = Inr content" and "find_slot content = Some cs"
  shows "\<exists>r. extract_interview_slot read_file parse now path = Some r
           \<and> raw_date_text r = date_text cs \<and> raw_time_text r = time_text cs
           \<and> formatted_time r = parse_time cs \<and> formatted_time r \<noteq> []
           \<and> (time_text cs = [] \<longrightarrow> formatted_time r = ''00:00'')
           \<and> (\<forall>e. parse_date parse now cs = Inl e \<longrightarrow> formatted_date r = [])
           \<and> (\<forall>d. parse_date parse now cs = Inr d \<longrightarrow> formatted_date r = d)"
  using assms found_slot_time [OF assms(2)] empty_time_text [OF assms(2)]
  by (auto simp add: extract_interview_slot_def extract_content_def slot_result_def)

theorem parse_failure_is_local_witness:
  "find_slot ''scheduled for May 35, 2041 at 4 PM''
     = Some \<lparr>date_text = ''May 35, 2041'', time_text = ''4 PM'', full_match = ''scheduled for May 35, 2041'',
              format_type = Some Legacy\<rparr>
   \<and> parse_date dateutil_parse (mk_date 2025 10 1)
        \<lparr>date_text = ''May 35, 2041'', time_text = ''4 PM'', full_match = ''scheduled for May 35, 2041'',
         format_type = Some Legacy\<rparr> = Inl ParserError
   \<and> extract_interview_slot (\<lambda>p. Inr ''scheduled for May 35, 2041 at 4 PM'') dateutil_parse (mk_date 2025 10 1) ''t.txt''
     = Some \<lparr>formatted_date = [], formatted_time = ''16:00'', raw_date_text = ''May 35, 2041'',
              raw_time_text = ''4 PM'', full_text = ''scheduled for May 35, 2041''\<rparr>"
proof -
  let ?cs = "\<lparr>date_text = ''May 35, 2041'', time_text = ''4 PM'', full_match = ''scheduled for May 35, 2041'',
              format_type = Some Legacy\<rparr>"
  have h1: "(\<lambda>p. Inr ''scheduled for May 35, 2041 at 4 PM'' :: py_error + string) ''t.txt''
              = Inr ''scheduled for May 35, 2041 at 4 PM''"
    by simp
  have h2: "find_slot ''scheduled for May 35, 2041 at 4 PM'' = Some ?cs"
    by (simp add: extract_eval)
  have d: "parse_date dateutil_parse (mk_date 2025 10 1) ?cs = Inl ParserError"
    by (simp add: extract_eval parser_eval)
  have t: "parse_time ?cs = ''16:00''"
    by (simp add: extract_eval)
  from parse_failure_is_local
         [where read_file = "\<lambda>p. Inr ''scheduled for May 35, 2041 at 4 PM''" and path = "''t.txt''"
            and content = "''scheduled for May 35, 2041 at 4 PM''" and cs = ?cs
            and parse = dateutil_parse and now = "mk_date 2025 10 1", OF h1 h2]
  obtain r where r: "extract_interview_slot (\<lambda>p. Inr ''scheduled for May 35, 2041 at 4 PM'') dateutil_parse
                       (mk_date 2025 10 1) ''t.txt'' = Some r"
    and "raw_date_text r = date_text ?cs" and "raw_time_text r = time_text ?cs"
    and "formatted_time r = parse_time ?cs" and "formatted_date r = []"
    using d by auto
  then have "r = \<lparr>formatted_date = [], formatted_time = ''16:00'', raw_date_text = ''May 35, 2041'',
              raw_time_text = ''4 PM'', full_text = ''scheduled for May 35, 2041''\<rparr>"
    using t h2 by (cases r) (simp add: extract_interview_slot_def extract_content_def slot_result_def)
  with r h2 d show ?thesis by simp
qed

text \<open>
  The claim as it was stated has a time that fails to parse leave the formatted time
  empty beside a date that parses. On the transcript below the legacy stage finds the
  date and no time: the time text is empty, neither pattern of the legacy time block
  matches it, the date parses, and the formatted time is 00:00, not empty.
\<close>

theorem missing_time_counterexample:
  "re_search False False hm_pattern [] = None \<and> re_search False False hour_pattern [] = None
   \<and> extract_interview_slot (\<lambda>p. Inr ''scheduled for May 5, 2041'') dateutil_parse (mk_date 2025 10 1) ''t.txt''
     = Some \<lparr>formatted_date = ''05-05-2041'', formatted_time = ''00:00'', raw_date_text = ''May 5, 2041'',
              raw_time_text = [], full_text = ''scheduled for May 5, 2041''\<rparr>"
  by (simp add: extract_interview_slot_def extract_eval parser_eval)
section \<open>A date without a year\<close>

lemma march_3rd_slot:
  "find_slot ''March 3rd, 4 PM''
     = Some \<lparr>date_text = ''March 3rd'', time_text = ''4 PM'', full_match = ''March 3rd at 4 PM'',
              format_type = None\<rparr>"
  by (simp add: extract_eval)

lemma march_3rd_no_year: "re_search False False year_pattern ''March 3rd'' = None"
  by (simp add: rx_eval)

lemma march_3rd_not_relative:
  "\<not> contains ''tomorrow'' (lower ''March 3rd'')" "\<not> contains ''today'' (lower ''March 3rd'')"
  by (simp_all add: lower_def char_eval)

text \<open>The year inference of lines 122 to 127 does what it is written for when the parser
  marks a missing year with 1900.\<close>

lemma placeholder_year_rolls_forward:
  assumes "parse (mk_date 2025 10 1) ''March 3rd'' = Inr (mk_date 1900 3 3)"
  shows "formatted_date (extract_content parse (mk_date 2025 10 1) ''March 3rd, 4 PM'') = ''03-03-2026''"
  using assms
  by (simp add: extract_content_def march_3rd_slot slot_result_def parse_date_def march_3rd_no_year
        march_3rd_not_relative date_eval lex_less.simps char_eval)

text \<open>
  Claim C2. With no four-digit year in the date text, the extractor infers the current
  year and rolls forward one year when the date has passed: March 3rd, read on 2025-10-01,
  gives 03-03-2026. The code tests for the placeholder year 1900, but dateutil fills a
  missing year from its default, today at 00:00, so the parsed year is the current year
  and the test fails while the current year is not 1900: the formatted date is March 3rd
  of the current year, already past or not.
\<close>

theorem missing_year_not_rolled_forward:
  assumes "parse now ''March 3rd'' = Inr (mk_date (dt_year now) 3 3)" and "dt_year now \<noteq> 1900"
  shows "raw_date_text (extract_content parse now ''March 3rd, 4 PM'') = ''March 3rd''
       \<and> formatted_date (extract_content parse now ''March 3rd, 4 PM'') = ''03-03-'' @ str_nat (dt_year now)"
  using assms
  by (simp add: extract_content_def march_3rd_slot slot_result_def parse_date_def march_3rd_no_year
        march_3rd_not_relative then_format_def infer_year_def strftime_dmy_def mk_date_def
        zero_pad_def str_nat.simps char_eval)

theorem missing_year_not_rolled_forward_witness:
  "dateutil_parse (mk_date 2025 10 1) ''March 3rd'' = Inr (mk_date (dt_year (mk_date 2025 10 1)) 3 3)
   \<and> dt_year (mk_date 2025 10 1) \<noteq> 1900
   \<and> formatted_date (extract_content dateutil_parse (mk_date 2025 10 1) ''March 3rd, 4 PM'') = ''03-03-2025''"
proof -
  have h1: "dateutil_parse (mk_date 2025 10 1) ''March 3rd'' = Inr (mk_date (dt_year (mk_date 2025 10 1)) 3 3)"
    by (simp add: parser_eval rx_eval date_eval)
  have h2: "dt_year (mk_date 2025 10 1) \<noteq> 1900"
    by (simp add: mk_date_def)
  have y: "str_nat (dt_year (mk_date 2025 10 1)) = ''2025''"
    by (simp add: mk_date_def zero_pad_def str_nat.simps char_eval)
  from missing_year_not_rolled_forward
         [where parse = dateutil_parse and now = "mk_date 2025 10 1", OF h1 h2] h1 h2 y
  show ?thesis by simp
qed

section \<open>Several legacy confirmations\<close>

lemma legacy_date_first:
  assumes "k < length ps"
      and "\<forall>j<k. re_finditer True True (ps ! j) content = []"
      and "re_finditer True True (ps ! k) content = m # others"
  shows "legacy_date ps content
           = Some \<lparr>date_text = strip (grp m 1), time_text = [], full_match = m_group0 m,
                    format_type = Some Legacy\<rparr>"
  using assms
proof (induction ps arbitrary: k)
  case Nil
  then show ?case by simp
next
  case (Cons p ps)
  show ?case
  proof (cases k)
    case 0
    with Cons.prems(3) show ?thesis by simp
  next
    case (Suc k')
    with Cons.prems(2) have "re_finditer True True p content = []"
      by auto
    moreover have "k' < length ps"
      using Cons.prems(1) Suc by simp
    moreover have "\<forall>j<k'. re_finditer True True (ps ! j) content = []"
      using Cons.prems(2) Suc by auto
    moreover have "re_finditer True True (ps ! k') content = m # others"
      using Cons.prems(3) Suc by simp
    ultimately show ?thesis
      using Cons.IH [of k'] by simp
  qed
qed

text \<open>
  Claim C3, as the code has it. Without a standardized confirmation, the legacy stage
  returns the date of the first match of the first legacy pattern that matches, in the
  order scheduled, schedule, meeting, interview, and the last time-like text of the
  transcript (the empty text when there is none). The claim says the last-mentioned date;
  the transcript of the counterexample has two confirmations and the first one is
  returned.
\<close>

theorem legacy_first_date_last_time:
  assumes "re_search True False standardized_pattern content = None"
      and "k < length legacy_patterns"
      and "\<forall>j<k. re_finditer True True (legacy_patterns ! j) content = []"
      and "re_finditer True True (legacy_patterns ! k) content = m # others"
  shows "raw_date_text (extract_content parse now content) = strip (grp m 1)
       \<and> raw_time_text (extract_content parse now content)
           = (if re_findall True False time_pattern content = [] then []
              else last (re_findall True False time_pattern content))"
proof -
  have "legacy_date legacy_patterns content
          = Some \<lparr>date_text = strip (grp m 1), time_text = [], full_match = m_group0 m,
                   format_type = Some Legacy\<rparr>"
    using assms(2-4) by (rule legacy_date_first)
  then show ?thesis
    using assms(1)
    by (simp add: extract_content_def find_slot_def standardized_slot_def legacy_slot_def
          slot_result_def Let_def)
qed

lemma two_confirmations_no_standardized:
  "re_search True False standardized_pattern
     ''scheduled for May 5, 2041 at 9 AM. scheduled for June 7, 2041 at 10 AM'' = None"
  by (simp add: rx_eval)

lemma two_confirmations_matches:
  "re_finditer True True (legacy_patterns ! 0)
     ''scheduled for May 5, 2041 at 9 AM. scheduled for June 7, 2041 at 10 AM''
   = [\<lparr>m_group0 = ''scheduled for May 5, 2041'', m_groups = [(1, ''May 5, 2041'')],
       m_prev = Some (CHR ''1''), m_rest = '' at 9 AM. scheduled for June 7, 2041 at 10 AM''\<rparr>,
      \<lparr>m_group0 = ''scheduled for June 7, 2041'', m_groups = [(1, ''June 7, 2041'')],
       m_prev = Some (CHR ''1''), m_rest = '' at 10 AM''\<rparr>]"
  by (simp add: rx_eval)

lemma two_confirmations_times:
  "re_findall True False time_pattern
     ''scheduled for May 5, 2041 at 9 AM. scheduled for June 7, 2041 at 10 AM'' = [''9 AM'', ''10 AM'']"
  by (simp add: rx_eval)

theorem legacy_first_date_last_time_witness:
  "re_search True False standardized_pattern
     ''scheduled for May 5, 2041 at 9 AM. scheduled for June 7, 2041 at 10 AM'' = None
   \<and> map (\<lambda>m. grp m 1) (re_finditer True True (legacy_patterns ! 0)
        ''scheduled for May 5, 2041 at 9 AM. scheduled for June 7, 2041 at 10 AM'')
       = [''May 5, 2041'', ''June 7, 2041'']
   \<and> raw_date_text (extract_content dateutil_parse (mk_date 2025 10 1)
        ''scheduled for May 5, 2041 at 9 AM. scheduled for June 7, 2041 at 10 AM'') = ''May 5, 2041''
   \<and> raw_time_text (extract_content dateutil_parse (mk_date 2025 10 1)
        ''scheduled for May 5, 2041 at 9 AM. scheduled for June 7, 2041 at 10 AM'') = ''10 AM''"
proof -
  have k: "0 < length legacy_patterns"
    by (simp add: legacy_patterns_def)
  have j: "\<forall>j<0. re_finditer True True (legacy_patterns ! j)
             ''scheduled for May 5, 2041 at 9 AM. scheduled for June 7, 2041 at 10 AM'' = []"
    by simp
  from legacy_first_date_last_time
         [OF two_confirmations_no_standardized k j two_confirmations_matches,
          of dateutil_parse "mk_date 2025 10 1"]
  show ?thesis
    by (simp add: two_confirmations_no_standardized two_confirmations_matches two_confirmations_times
          grp_def group_text_def strip_def char_eval)
qed

theorem legacy_last_date_counterexample:
  "raw_date_text (extract_content dateutil_parse (mk_date 2025 10 1)
      ''scheduled for May 5, 2041 at 9 AM. scheduled for June 7, 2041 at 10 AM'') \<noteq> ''June 7, 2041''
   \<and> formatted_date (extract_content dateutil_parse (mk_date 2025 10 1)
      ''scheduled for May 5, 2041 at 9 AM. scheduled for June 7, 2041 at 10 AM'') = ''05-05-2041''
   \<and> formatted_time (extract_content dateutil_parse (mk_date 2025 10 1)
      ''scheduled for May 5, 2041 at 9 AM. scheduled for June 7, 2041 at 10 AM'') = ''10:00''"
  by (simp add: extract_eval parser_eval)

end
